theory Spec2Isabelle
  imports Complex_Main "HOL-Library.Char_ord" "HOL-Library.List_Lexorder"
begin

section \<open>Shared vocabulary\<close>

text \<open>
  JavaScript numbers that the services compare or subtract (prices, counters, clock
  readings in milliseconds) are modelled by exact \<open>real\<close> and \<open>int\<close> values; the
  one place where the source can leave the finite numbers (a division by a zero price)
  is modelled by \<open>js_number\<close>. A thrown value is an \<open>error\<close>; a function that can throw
  returns \<open>error + 'a\<close> with \<open>Inl\<close> for the throw. Calls to the logger have no effect on
  any value a service computes; they are modelled where a property observes them (the
  scheduler and the dispatcher) and left out of the price services.
\<close>

datatype error =
    Error string
  | DatabaseError string
  | ApiError string int
  | RateLimitError string

fun message :: "error \<Rightarrow> string" where
  "message (Error m) = m"
| "message (DatabaseError m) = m"
| "message (ApiError m _) = m"
| "message (RateLimitError m) = m"

datatype js_number = Num real | Infinity | NegInfinity | NaN

text \<open>Division and multiplication of finite numbers as JavaScript evaluates them.\<close>

definition js_div :: "real \<Rightarrow> real \<Rightarrow> js_number" where
  "js_div a b =
     (if b \<noteq> 0 then Num (a / b)
      else if 0 < a then Infinity
      else if a < 0 then NegInfinity
      else NaN)"

fun js_times :: "js_number \<Rightarrow> real \<Rightarrow> js_number" where
  "js_times (Num a) b = Num (a * b)"
| "js_times Infinity b = (if 0 < b then Infinity else if b < 0 then NegInfinity else NaN)"
| "js_times NegInfinity b = (if 0 < b then NegInfinity else if b < 0 then Infinity else NaN)"
| "js_times NaN b = NaN"

section \<open>Price comparison service\<close>

datatype SupportedExchange = BINANCE | OKX | BYBIT | COINBASE | KRAKEN

record ExchangePrice =
  exchange :: SupportedExchange
  symbol :: string
  price :: real
  volume_24h :: "real option"
  timestamp :: int

record FundingRate =
  fr_exchange :: SupportedExchange
  fr_symbol :: string
  funding_rate :: real
  next_funding_time :: "int option"
  fr_timestamp :: int

record PriceComparison =
  pc_symbol :: string
  prices :: "ExchangePrice list"
  best_price :: ExchangePrice
  worst_price :: ExchangePrice
  price_difference :: real
  price_difference_percentage :: js_number
  funding_rates :: "FundingRate list option"
  pc_timestamp :: int

text \<open>
  What the retried HTTP request of one getter ended with: a thrown error, or the
  payload. A ticker is the pair (last price, 24h volume) and a funding entry the pair
  (rate, next funding time) after \<open>parseFloat\<close>/\<open>parseInt\<close>. Binance answers with one
  object, OKX and Bybit with a list of which the getter reads element 0.
\<close>

type_synonym ticker = "real \<times> real"
type_synonym funding = "real \<times> int"

record ExchangeApi =
  binance_ticker :: "error + ticker"
  okx_ticker :: "error + ticker list"
  bybit_ticker :: "error + ticker list"
  binance_funding :: "error + funding"
  okx_funding :: "error + funding list"
  bybit_funding :: "error + funding list"

definition mkPrice :: "SupportedExchange \<Rightarrow> string \<Rightarrow> int \<Rightarrow> ticker \<Rightarrow> ExchangePrice" where
  "mkPrice ex smb now t =
     \<lparr>exchange = ex, symbol = smb, price = fst t, volume_24h = Some (snd t), timestamp = now\<rparr>"

text \<open>Each getter wraps its whole body in try/catch and resolves to null on any throw.\<close>

definition getBinancePrice :: "ExchangeApi \<Rightarrow> string \<Rightarrow> int \<Rightarrow> error + ExchangePrice option" where
  "getBinancePrice api smb now =
     (case binance_ticker api of
        Inl e \<Rightarrow> Inr None
      | Inr d \<Rightarrow> Inr (Some (mkPrice BINANCE smb now d)))"

definition getOKXPrice :: "ExchangeApi \<Rightarrow> string \<Rightarrow> int \<Rightarrow> error + ExchangePrice option" where
  "getOKXPrice api smb now =
     (case okx_ticker api of
        Inl e \<Rightarrow> Inr None
      | Inr [] \<Rightarrow> Inr None
      | Inr (d # _) \<Rightarrow> Inr (Some (mkPrice OKX smb now d)))"

definition getBybitPrice :: "ExchangeApi \<Rightarrow> string \<Rightarrow> int \<Rightarrow> error + ExchangePrice option" where
  "getBybitPrice api smb now =
     (case bybit_ticker api of
        Inl e \<Rightarrow> Inr None
      | Inr [] \<Rightarrow> Inr None
      | Inr (d # _) \<Rightarrow> Inr (Some (mkPrice BYBIT smb now d)))"

definition mkFunding :: "SupportedExchange \<Rightarrow> string \<Rightarrow> int \<Rightarrow> real \<Rightarrow> int option \<Rightarrow> FundingRate" where
  "mkFunding ex smb now r nxt =
     \<lparr>fr_exchange = ex, fr_symbol = smb, funding_rate = r, next_funding_time = nxt,
      fr_timestamp = now\<rparr>"

definition getBinanceFundingRate :: "ExchangeApi \<Rightarrow> string \<Rightarrow> int \<Rightarrow> error + FundingRate option" where
  "getBinanceFundingRate api smb now =
     (case binance_funding api of
        Inl e \<Rightarrow> Inr None
      | Inr d \<Rightarrow> Inr (Some (mkFunding BINANCE smb now (fst d) (Some (snd d)))))"

definition getOKXFundingRate :: "ExchangeApi \<Rightarrow> string \<Rightarrow> int \<Rightarrow> error + FundingRate option" where
  "getOKXFundingRate api smb now =
     (case okx_funding api of
        Inl e \<Rightarrow> Inr None
      | Inr [] \<Rightarrow> Inr None
      | Inr (d # _) \<Rightarrow> Inr (Some (mkFunding OKX smb now (fst d) (Some (snd d)))))"

definition getBybitFundingRate :: "ExchangeApi \<Rightarrow> string \<Rightarrow> int \<Rightarrow> error + FundingRate option" where
  "getBybitFundingRate api smb now =
     (case bybit_funding api of
        Inl e \<Rightarrow> Inr None
      | Inr [] \<Rightarrow> Inr None
      | Inr (d # _) \<Rightarrow> Inr (Some (mkFunding BYBIT smb now (fst d) None)))"

text \<open>
  \<open>Promise.allSettled\<close> followed by the \<open>forEach\<close> that keeps a result only when it is
  fulfilled with a non-null value, in the order of the promise array.
\<close>

fun collectSettled :: "(error + 'a option) list \<Rightarrow> 'a list" where
  "collectSettled [] = []"
| "collectSettled (Inr (Some v) # rs) = v # collectSettled rs"
| "collectSettled (_ # rs) = collectSettled rs"

definition getAllPrices :: "ExchangeApi \<Rightarrow> string \<Rightarrow> int \<Rightarrow> ExchangePrice list" where
  "getAllPrices api smb now =
     collectSettled [getBinancePrice api smb now, getOKXPrice api smb now, getBybitPrice api smb now]"

definition getAllFundingRates :: "ExchangeApi \<Rightarrow> string \<Rightarrow> int \<Rightarrow> FundingRate list" where
  "getAllFundingRates api smb now =
     collectSettled [getBinanceFundingRate api smb now, getOKXFundingRate api smb now,
                     getBybitFundingRate api smb now]"

text \<open>
  \<open>[...prices].sort((a, b) => a.price - b.price)\<close>: \<open>Array.prototype.sort\<close> is a stable
  sort, here by ascending price; \<open>sort_key\<close> is the stable insertion sort of the list
  library. The sorted copy is read at index 0 and at index length - 1 only in the
  branch where \<open>prices\<close> is not empty. \<open>compareQuotes\<close> is the body of \<open>comparePrices\<close>
  from the point where the two awaited lists are at hand; \<open>comparePrices\<close> supplies them.
  No step of the body throws, so the catch block that logs and rethrows is never entered.
\<close>

definition compareQuotes :: "string \<Rightarrow> int \<Rightarrow> ExchangePrice list \<Rightarrow> FundingRate list
    \<Rightarrow> error + PriceComparison option" where
  "compareQuotes smb now ps frs =
     (if length ps = 0 then Inr None
      else
        let sortedPrices = sort_key price ps;
            bestPrice = hd sortedPrices;
            worstPrice = last sortedPrices;
            priceDifference = price worstPrice - price bestPrice;
            priceDifferencePercentage = js_times (js_div priceDifference (price bestPrice)) 100
        in Inr (Some \<lparr>pc_symbol = smb, prices = ps, best_price = bestPrice,
                      worst_price = worstPrice, price_difference = priceDifference,
                      price_difference_percentage = priceDifferencePercentage,
                      funding_rates = (if length frs > 0 then Some frs else None),
                      pc_timestamp = now\<rparr>))"

definition comparePrices :: "ExchangeApi \<Rightarrow> string \<Rightarrow> bool \<Rightarrow> int \<Rightarrow> error + PriceComparison option" where
  "comparePrices api smb includeFundingRates now =
     compareQuotes smb now (getAllPrices api smb now)
       (if includeFundingRates then getAllFundingRates api smb now else [])"


subsection \<open>Request throttle of the price comparison service\<close>









subsection \<open>Request throttle of the CoinGecko service\<close>





subsection \<open>Counting admissions\<close>








text \<open>The price a getter's settled result carries, if it carries a quote.\<close>

fun quotedPrice :: "error + ExchangePrice option \<Rightarrow> real option" where
  "quotedPrice (Inr (Some q)) = Some (price q)"
| "quotedPrice _ = None"


section \<open>The collaborators as one world\<close>

text \<open>
  The persistent store, the outbound channel, the market-data client, the clock and the
  logger are what the scheduled handlers act on. Their state is one record. What the
  environment decides is read from the record as well: \<open>db_faults n\<close> is the error (if
  any) that the \<open>n\<close>-th statement run against the store ends with, \<open>channel_faults n\<close> the
  error of the \<open>n\<close>-th send, \<open>ids n\<close> the \<open>n\<close>-th value of \<open>generateId\<close>, and \<open>market\<close> the
  answer of the simple-price endpoint for a coin id.
\<close>

datatype LogLevel = LogError | LogWarn | LogInfo | LogDebug

type_synonym log_entry = "LogLevel \<times> string \<times> string"

record UserSubscription =
  user_id :: int
  chat_id :: int
  subscription_type :: string
  is_active :: bool
  frequency :: string
  symbols :: "string list"
  exchanges :: "string list"
  price_threshold :: "real option"
  created_at :: string
  updated_at :: string

datatype AlertCondition = above | below

record PriceAlert =
  alert_id :: string
  alert_user_id :: int
  alert_chat_id :: int
  alert_symbol :: string
  target_price :: real
  condition :: AlertCondition
  alert_is_active :: bool
  triggered :: bool
  alert_created_at :: string
  triggered_at :: "string option"

record PushHistory =
  record_id :: string
  record_user_id :: int
  record_chat_id :: int
  record_type :: string
  content :: string
  success :: bool
  error_message :: "string option"
  record_timestamp :: string

record World =
  subscriptions :: "UserSubscription list"
  price_alerts :: "PriceAlert list"
  push_history :: "PushHistory list"
  db_faults :: "nat \<Rightarrow> string option"
  db_calls :: nat
  channel_faults :: "nat \<Rightarrow> string option"
  channel_calls :: nat
  outbox :: "(int \<times> string) list"
  ids :: "nat \<Rightarrow> string"
  id_calls :: nat
  market :: "string \<Rightarrow> error + real option"
  clock :: int
  logged :: "log_entry list"

definition logTo :: "World \<Rightarrow> LogLevel \<Rightarrow> string \<Rightarrow> string \<Rightarrow> World" where
  "logTo w lvl msg subject = w\<lparr>logged := logged w @ [(lvl, msg, subject)]\<rparr>"

text \<open>\<open>sleep(ms)\<close> and \<open>setTimeout\<close>: the clock moves on.\<close>

definition sleep :: "World \<Rightarrow> int \<Rightarrow> World" where
  "sleep w ms = w\<lparr>clock := clock w + ms\<rparr>"

subsection \<open>ISO timestamps\<close>

text \<open>
  Modelled on the language's \<open>Date.prototype.toISOString\<close> (a built-in, not code of the
  repository): the UTC calendar date and time of a millisecond count since the epoch,
  \<open>YYYY-MM-DDTHH:mm:ss.sssZ\<close>, with a signed six-digit year outside 0..9999.
\<close>

definition digit :: "int \<Rightarrow> char" where
  "digit n = ''0123456789'' ! nat n"

text \<open>A number in \<open>k\<close> decimal digits, with leading zeros.\<close>

fun pad :: "nat \<Rightarrow> int \<Rightarrow> string" where
  "pad 0 n = []"
| "pad (Suc k) n = pad k (n div 10) @ [digit (n mod 10)]"

text \<open>
  The calendar: the day number since 1970-01-01 is resolved into its year and the day
  within the year by walking whole years from 1970, forwards or backwards, and the day
  within the year into month and day by walking the months of that year.
\<close>

definition isLeap :: "int \<Rightarrow> bool" where
  "isLeap y = (y mod 4 = 0 \<and> (y mod 100 \<noteq> 0 \<or> y mod 400 = 0))"

definition daysInYear :: "int \<Rightarrow> int" where
  "daysInYear y = (if isLeap y then 366 else 365)"

function yearFrom :: "int \<Rightarrow> int \<Rightarrow> int \<times> int" where
  "yearFrom y d =
     (if d < 0 then yearFrom (y - 1) (d + daysInYear (y - 1))
      else if daysInYear y \<le> d then yearFrom (y + 1) (d - daysInYear y)
      else (y, d))"
  by pat_completeness auto
termination
  by (relation "measures [\<lambda>(y, d). if d < 0 then 1 else 0, \<lambda>(y, d). nat \<bar>d\<bar>]")
     (auto simp: daysInYear_def split: if_splits)

declare yearFrom.simps [simp del]

definition monthLengths :: "int \<Rightarrow> int list" where
  "monthLengths y = [31, if isLeap y then 29 else 28, 31, 30, 31, 30, 31, 31, 30, 31, 30, 31]"

fun monthFrom :: "int list \<Rightarrow> int \<Rightarrow> int \<Rightarrow> int \<times> int" where
  "monthFrom [] m d = (m, d)"
| "monthFrom (l # ls) m d = (if d < l then (m, d) else monthFrom ls (m + 1) (d - l))"

definition civilFromDays :: "int \<Rightarrow> int \<times> int \<times> int" where
  "civilFromDays days =
     (let (y, doy) = yearFrom 1970 days;
          (m, dom) = monthFrom (monthLengths y) 1 doy
      in (y, m, dom + 1))"

definition dateString :: "int \<times> int \<times> int \<Rightarrow> string" where
  "dateString c =
     (case c of (y, m, d) \<Rightarrow>
        (if 0 \<le> y \<and> y \<le> 9999 then pad 4 y
         else (if y < 0 then ''-'' else ''+'') @ pad 6 (abs y))
        @ ''-'' @ pad 2 m @ ''-'' @ pad 2 d)"

definition timeString :: "int \<Rightarrow> string" where
  "timeString ms =
     pad 2 (ms div 3600000) @ '':'' @ pad 2 (ms div 60000 mod 60) @ '':''
     @ pad 2 (ms div 1000 mod 60) @ ''.'' @ pad 3 (ms mod 1000)"

definition toISOString :: "int \<Rightarrow> string" where
  "toISOString t =
     dateString (civilFromDays (t div 86400000)) @ ''T'' @ timeString (t mod 86400000) @ ''Z''"

subsection \<open>Database service\<close>

text \<open>
  Every method runs its statement inside try/catch, logs the operation, and on a
  failure throws a \<open>DatabaseError\<close> with the method's own message. A failed statement
  changes no row.
\<close>

definition dbFault :: "World \<Rightarrow> string option" where
  "dbFault w = db_faults w (db_calls w)"

definition dbDone :: "World \<Rightarrow> bool \<Rightarrow> string \<Rightarrow> World" where
  "dbDone w ok table =
     logTo (w\<lparr>db_calls := Suc (db_calls w)\<rparr>) (if ok then LogDebug else LogError)
       ''Database Operation'' table"

text \<open>
  \<open>SELECT * FROM subscriptions WHERE is_active = 1\<close>, with
  \<open>AND subscription_type = ?\<close> when the argument is a non-empty string.
\<close>

definition getActiveSubscriptions :: "World \<Rightarrow> string option
    \<Rightarrow> (error + UserSubscription list) \<times> World" where
  "getActiveSubscriptions w subscriptionType =
     (case dbFault w of
        Some m \<Rightarrow> (Inl (DatabaseError ''Failed to get active subscriptions''),
                    dbDone w False ''subscriptions'')
      | None \<Rightarrow>
          (Inr (filter (\<lambda>r. is_active r \<and>
                             (case subscriptionType of
                                None \<Rightarrow> True
                              | Some t \<Rightarrow> t = [] \<or> subscription_type r = t))
                  (subscriptions w)),
           dbDone w True ''subscriptions''))"


text \<open>\<open>UPDATE price_alerts SET triggered = 1, triggered_at = ? WHERE id = ?\<close>\<close>

definition triggerAlert :: "World \<Rightarrow> string \<Rightarrow> (error + bool) \<times> World" where
  "triggerAlert w alertId =
     (case dbFault w of
        Some m \<Rightarrow> (Inl (DatabaseError ''Failed to trigger alert''),
                    dbDone w False ''price_alerts'')
      | None \<Rightarrow>
          (Inr (length (filter (\<lambda>a. alert_id a = alertId) (price_alerts w)) > 0),
           dbDone (w\<lparr>price_alerts :=
                       map (\<lambda>a. if alert_id a = alertId
                                 then a\<lparr>triggered := True,
                                        triggered_at := Some (toISOString (clock w))\<rparr>
                                 else a)
                         (price_alerts w)\<rparr>)
             True ''price_alerts''))"

text \<open>
  \<open>addRecord\<close> takes the record without id and timestamp and inserts it with a
  generated id and the current time.
\<close>

definition addRecord :: "World \<Rightarrow> int \<Rightarrow> int \<Rightarrow> string \<Rightarrow> string \<Rightarrow> bool \<Rightarrow> string option
    \<Rightarrow> (error + string) \<times> World" where
  "addRecord w uid cid stype text ok err =
     (let ident = ids w (id_calls w);
          now = toISOString (clock w);
          w1 = w\<lparr>id_calls := Suc (id_calls w)\<rparr>
      in case dbFault w1 of
           Some m \<Rightarrow> (Inl (DatabaseError ''Failed to add push record''),
                       dbDone w1 False ''push_history'')
         | None \<Rightarrow>
             (Inr ident,
              dbDone (w1\<lparr>push_history := push_history w1 @
                           [\<lparr>record_id = ident, record_user_id = uid, record_chat_id = cid,
                             record_type = stype, content = text, success = ok,
                             error_message = err, record_timestamp = now\<rparr>]\<rparr>)
                True ''push_history''))"

text \<open>
  \<open>DELETE FROM push_history WHERE timestamp < ?\<close> with the ISO text of the instant
  \<open>daysToKeep\<close> days before now; the column is TEXT, so the comparison is the
  lexicographic order of the two strings. The result is the number of deleted rows.
\<close>

definition cleanOldRecords :: "World \<Rightarrow> int \<Rightarrow> (error + nat) \<times> World" where
  "cleanOldRecords w daysToKeep =
     (let cutoffDate = toISOString (clock w - daysToKeep * 24 * 60 * 60 * 1000)
      in case dbFault w of
           Some m \<Rightarrow> (Inl (DatabaseError ''Failed to clean old records''),
                       dbDone w False ''push_history'')
         | None \<Rightarrow>
             (Inr (length (filter (\<lambda>r. record_timestamp r < cutoffDate) (push_history w))),
              dbDone (w\<lparr>push_history :=
                          filter (\<lambda>r. \<not> record_timestamp r < cutoffDate) (push_history w)\<rparr>)
                True ''push_history''))"


section \<open>Broadcast dispatcher\<close>

text \<open>\<open>bot.sendMessage\<close>: the channel accepts the message or rejects with an error.\<close>

definition sendMessage :: "World \<Rightarrow> int \<Rightarrow> string \<Rightarrow> (error + unit) \<times> World" where
  "sendMessage w chatId text =
     (case channel_faults w (channel_calls w) of
        Some m \<Rightarrow> (Inl (Error m), w\<lparr>channel_calls := Suc (channel_calls w)\<rparr>)
      | None \<Rightarrow> (Inr (), w\<lparr>channel_calls := Suc (channel_calls w),
                              outbox := outbox w @ [(chatId, text)]\<rparr>))"

text \<open>
  The catch block of the loop body: log, then record the failed push. A throw of this
  \<open>addRecord\<close> leaves the loop.
\<close>

definition recordFailure :: "World \<Rightarrow> string \<Rightarrow> string \<Rightarrow> UserSubscription \<Rightarrow> error
    \<Rightarrow> (error + unit) \<times> World" where
  "recordFailure w subscriptionType text sub e =
     (let w1 = logTo w LogError ''Failed to send broadcast message'' subscriptionType;
          (r, w2) = addRecord w1 (user_id sub) (chat_id sub) subscriptionType text False
                      (Some (message e))
      in case r of Inl e' \<Rightarrow> (Inl e', w2) | Inr _ \<Rightarrow> (Inr (), w2))"

text \<open>The body of the loop for one subscription: send, record, pause 100 ms.\<close>

definition deliver :: "World \<Rightarrow> string \<Rightarrow> string \<Rightarrow> UserSubscription \<Rightarrow> (error + unit) \<times> World" where
  "deliver w subscriptionType text sub =
     (let (r1, w1) = sendMessage w (chat_id sub) text
      in case r1 of
           Inl e \<Rightarrow> recordFailure w1 subscriptionType text sub e
         | Inr _ \<Rightarrow>
             (let (r2, w2) = addRecord w1 (user_id sub) (chat_id sub) subscriptionType text True None
              in case r2 of
                   Inl e \<Rightarrow> recordFailure w2 subscriptionType text sub e
                 | Inr _ \<Rightarrow> (Inr (), sleep w2 100)))"

fun deliverAll :: "World \<Rightarrow> string \<Rightarrow> string \<Rightarrow> UserSubscription list \<Rightarrow> (error + unit) \<times> World" where
  "deliverAll w subscriptionType text [] = (Inr (), w)"
| "deliverAll w subscriptionType text (sub # subs) =
     (let (r, w1) = deliver w subscriptionType text sub
      in case r of
           Inl e \<Rightarrow> (Inl e, w1)
         | Inr _ \<Rightarrow> deliverAll w1 subscriptionType text subs)"

text \<open>The outer try/catch logs whatever reaches it and lets the promise resolve.\<close>

definition broadcastToSubscribers :: "World \<Rightarrow> string \<Rightarrow> string \<Rightarrow> (error + unit) \<times> World" where
  "broadcastToSubscribers w subscriptionType text =
     (let (r, w1) = getActiveSubscriptions w (Some subscriptionType)
      in case r of
           Inl e \<Rightarrow> (Inr (), logTo w1 LogError ''Failed to broadcast message'' subscriptionType)
         | Inr subs \<Rightarrow>
             (let (r2, w2) = deliverAll w1 subscriptionType text subs
              in case r2 of
                   Inl e \<Rightarrow> (Inr (), logTo w2 LogError ''Failed to broadcast message''
                                        subscriptionType)
                 | Inr _ \<Rightarrow> (Inr (), logTo w2 LogInfo ''Broadcast completed''
                                        subscriptionType)))"

text \<open>What a push record says, apart from its generated id and its timestamp.\<close>

definition pushOutcome :: "PushHistory \<Rightarrow> int \<times> int \<times> string \<times> string \<times> bool \<times> string option" where
  "pushOutcome r =
     (record_user_id r, record_chat_id r, record_type r, content r, success r, error_message r)"

section \<open>Task scheduler\<close>

text \<open>
  A job is the object handed to \<open>scheduleTask\<close>; its handler acts on the collaborators.
  The optional fields \<open>last_run\<close> and \<open>next_run\<close> are never read or written by the
  scheduler and are left out, as are the clock readings of a task result. The timer the
  cron library returns is its started/stopped state together with the job its callback
  closes over; \<open>executeTask\<close> mutates that job object, so the update is written to the
  timer registered under the job's id.
\<close>

record ScheduledTask =
  id' :: string
  name :: string
  cron :: string
  handler :: "World \<Rightarrow> (error + unit) \<times> World"
  enabled :: bool
  error_count :: int
  max_retries :: int

record TaskResult =
  task_id :: string
  task_success :: bool
  task_error :: "string option"

record CronTask =
  started :: bool
  job :: ScheduledTask

record SchedulerService =
  tasks :: "string \<rightharpoonup> CronTask"
  runningTasks :: "string list"
  max_concurrent_jobs :: int
  world :: World

definition logS :: "SchedulerService \<Rightarrow> LogLevel \<Rightarrow> string \<Rightarrow> string \<Rightarrow> SchedulerService" where
  "logS s lvl msg subject = s\<lparr>world := logTo (world s) lvl msg subject\<rparr>"

definition unscheduleTask :: "SchedulerService \<Rightarrow> string \<Rightarrow> SchedulerService" where
  "unscheduleTask s taskId =
     (case tasks s taskId of
        Some t \<Rightarrow> logS (s\<lparr>tasks := (tasks s)(taskId := None)\<rparr>) LogInfo ''Task unscheduled'' taskId
      | None \<Rightarrow> s)"

definition scheduleTask :: "SchedulerService \<Rightarrow> ScheduledTask \<Rightarrow> SchedulerService" where
  "scheduleTask s task =
     (let s1 = (if tasks s (id' task) \<noteq> None
                then unscheduleTask (logS s LogWarn ''Task already exists, replacing'' (id' task))
                       (id' task)
                else s);
          cronTask = \<lparr>started = enabled task, job = task\<rparr>
      in logS (s1\<lparr>tasks := (tasks s1)(id' task \<mapsto> cronTask)\<rparr>) LogInfo ''Task scheduled'' (id' task))"

definition pauseTask :: "SchedulerService \<Rightarrow> string \<Rightarrow> SchedulerService" where
  "pauseTask s taskId =
     (case tasks s taskId of
        Some t \<Rightarrow> logS (s\<lparr>tasks := (tasks s)(taskId \<mapsto> t\<lparr>started := False\<rparr>)\<rparr>)
                    LogInfo ''Task paused'' taskId
      | None \<Rightarrow> s)"

definition resumeTask :: "SchedulerService \<Rightarrow> string \<Rightarrow> SchedulerService" where
  "resumeTask s taskId =
     (case tasks s taskId of
        Some t \<Rightarrow> logS (s\<lparr>tasks := (tasks s)(taskId \<mapsto> t\<lparr>started := True\<rparr>)\<rparr>)
                    LogInfo ''Task resumed'' taskId
      | None \<Rightarrow> s)"

text \<open>\<open>Set.add\<close> and \<open>Set.delete\<close> on the set of running job ids.\<close>

definition setAdd :: "string \<Rightarrow> string list \<Rightarrow> string list" where
  "setAdd x xs = (if x \<in> set xs then xs else xs @ [x])"

definition setDelete :: "string \<Rightarrow> string list \<Rightarrow> string list" where
  "setDelete x xs = filter (\<lambda>y. y \<noteq> x) xs"

text \<open>\<open>task.error_count++\<close> on the job object held by its timer.\<close>

definition bumpErrorCount :: "SchedulerService \<Rightarrow> ScheduledTask \<Rightarrow> SchedulerService" where
  "bumpErrorCount s task =
     (case tasks s (id' task) of
        Some t \<Rightarrow> s\<lparr>tasks := (tasks s)(id' task \<mapsto>
                      t\<lparr>job := (job t)\<lparr>error_count := error_count task + 1\<rparr>\<rparr>)\<rparr>
      | None \<Rightarrow> s)"

definition executeTask :: "SchedulerService \<Rightarrow> ScheduledTask \<Rightarrow> TaskResult \<times> SchedulerService" where
  "executeTask s task =
     (if int (length (runningTasks s)) \<ge> max_concurrent_jobs s
      then (\<lparr>task_id = id' task, task_success = False,
              task_error = Some ''Max concurrent jobs reached''\<rparr>,
            logS s LogWarn ''Max concurrent jobs reached, skipping task'' (id' task))
      else
        let s1 = s\<lparr>runningTasks := setAdd (id' task) (runningTasks s)\<rparr>;
            s2 = logS s1 LogInfo ''Executing task'' (id' task);
            (r, w) = handler task (world s2);
            s3 = s2\<lparr>world := w\<rparr>
        in case r of
             Inr _ \<Rightarrow>
               (let s4 = logS s3 LogInfo ''Scheduled Task'' (name task)
                in (\<lparr>task_id = id' task, task_success = True, task_error = None\<rparr>,
                    s4\<lparr>runningTasks := setDelete (id' task) (runningTasks s4)\<rparr>))
           | Inl e \<Rightarrow>
               (let s4 = bumpErrorCount s3 task;
                    s5 = logS s4 LogError ''Scheduled Task'' (name task);
                    s6 = (if error_count task + 1 \<ge> max_retries task
                          then pauseTask
                                 (logS s5 LogError ''Task disabled due to too many errors''
                                    (id' task))
                                 (id' task)
                          else s5)
                in (\<lparr>task_id = id' task, task_success = False, task_error = Some (message e)\<rparr>,
                    s6\<lparr>runningTasks := setDelete (id' task) (runningTasks s6)\<rparr>)))"

text \<open>
  The schedule of the timer registered under \<open>taskId\<close> comes due: a started timer runs
  its callback, which executes the job it closes over; a stopped or removed timer does
  nothing.
\<close>

definition fire :: "SchedulerService \<Rightarrow> string \<Rightarrow> SchedulerService" where
  "fire s taskId =
     (case tasks s taskId of
        Some t \<Rightarrow> if started t then snd (executeTask s (job t)) else s
      | None \<Rightarrow> s)"

fun fires :: "nat \<Rightarrow> SchedulerService \<Rightarrow> string \<Rightarrow> SchedulerService" where
  "fires 0 s taskId = s"
| "fires (Suc n) s taskId = fires n (fire s taskId) taskId"

definition isStarted :: "SchedulerService \<Rightarrow> string \<Rightarrow> bool" where
  "isStarted s taskId = (case tasks s taskId of Some t \<Rightarrow> started t | None \<Rightarrow> False)"


section \<open>Scheduled handlers on the store\<close>

text \<open>
  \<open>String.prototype.toLowerCase\<close> on the letters A to Z; every other character is kept
  (the built-in also maps upper-case letters outside ASCII).
\<close>

definition toLowerCase :: "string \<Rightarrow> string" where
  "toLowerCase s =
     map (\<lambda>c. case map_of (zip ''ABCDEFGHIJKLMNOPQRSTUVWXYZ'' ''abcdefghijklmnopqrstuvwxyz'') c of
                 Some l \<Rightarrow> l
               | None \<Rightarrow> c) s"



definition alertMatches :: "PriceAlert \<Rightarrow> real \<Rightarrow> bool" where
  "alertMatches a currentPrice =
     (if condition a = above \<and> currentPrice \<ge> target_price a then True
      else if condition a = below \<and> currentPrice \<le> target_price a then True
      else False)"

text \<open>
  The inner try/catch for a matching alert: send the notification, then mark the alert;
  a throw of either is logged and goes no further. The message text is rendered by
  \<open>fmt\<close> from the alert, the current price and the clock.
\<close>

definition notifyAlert :: "(PriceAlert \<Rightarrow> real \<Rightarrow> int \<Rightarrow> string) \<Rightarrow> World \<Rightarrow> PriceAlert \<Rightarrow> real
    \<Rightarrow> World" where
  "notifyAlert fmt w a currentPrice =
     (let (r1, w1) = sendMessage w (alert_chat_id a) (fmt a currentPrice (clock w))
      in case r1 of
           Inl e \<Rightarrow> logTo w1 LogError ''Failed to send price alert'' (alert_id a)
         | Inr _ \<Rightarrow>
             (let (r2, w2) = triggerAlert w1 (alert_id a)
              in case r2 of
                   Inl e \<Rightarrow> logTo w2 LogError ''Failed to send price alert'' (alert_id a)
                 | Inr _ \<Rightarrow> logTo w2 LogInfo ''Price alert triggered'' (alert_id a)))"

fun checkAlerts :: "(PriceAlert \<Rightarrow> real \<Rightarrow> int \<Rightarrow> string) \<Rightarrow> World \<Rightarrow> real \<Rightarrow> PriceAlert list
    \<Rightarrow> World" where
  "checkAlerts fmt w currentPrice [] = w"
| "checkAlerts fmt w currentPrice (a # as) =
     checkAlerts fmt (if alertMatches a currentPrice then notifyAlert fmt w a currentPrice else w)
       currentPrice as"

text \<open>
  One symbol group: fetch the price once; a throw of the fetch is logged and skips the
  group, a missing or zero price skips it silently.
\<close>

definition checkSymbol :: "(PriceAlert \<Rightarrow> real \<Rightarrow> int \<Rightarrow> string) \<Rightarrow> World
    \<Rightarrow> string \<times> PriceAlert list \<Rightarrow> World" where
  "checkSymbol fmt w g =
     (case market w (toLowerCase (fst g)) of
        Inl e \<Rightarrow> logTo w LogError ''Failed to check price alerts for symbol'' (fst g)
      | Inr None \<Rightarrow> w
      | Inr (Some currentPrice) \<Rightarrow>
          if currentPrice = 0 then w
          else sleep (checkAlerts fmt w currentPrice (snd g)) 200)"

fun checkGroups :: "(PriceAlert \<Rightarrow> real \<Rightarrow> int \<Rightarrow> string) \<Rightarrow> World
    \<Rightarrow> (string \<times> PriceAlert list) list \<Rightarrow> World" where
  "checkGroups fmt w [] = w"
| "checkGroups fmt w (g # gs) = checkGroups fmt (checkSymbol fmt w g) gs"


definition cleanupOldRecords :: "World \<Rightarrow> (error + unit) \<times> World" where
  "cleanupOldRecords w =
     (let (r, w1) = cleanOldRecords w 30
      in case r of
           Inl e \<Rightarrow> (Inr (), logTo w1 LogError ''Failed to cleanup old records'' (message e))
         | Inr deletedCount \<Rightarrow> (Inr (), logTo w1 LogInfo ''Cleaned up old records'' []))"


section \<open>Sample data\<close>

text \<open>An exchange API with the given three ticker answers and no funding data.\<close>

definition sampleApi :: "error + ticker \<Rightarrow> error + ticker list \<Rightarrow> error + ticker list \<Rightarrow> ExchangeApi" where
  "sampleApi b k y =
     \<lparr>binance_ticker = b, okx_ticker = k, bybit_ticker = y,
      binance_funding = Inl (Error ''unavailable''), okx_funding = Inl (Error ''unavailable''),
      bybit_funding = Inl (Error ''unavailable'')\<rparr>"

text \<open>A world with empty tables in which the store and the channel accept everything.\<close>

definition quietWorld :: World where
  "quietWorld =
     \<lparr>subscriptions = [], price_alerts = [], push_history = [],
      db_faults = (\<lambda>n. None), db_calls = 0,
      channel_faults = (\<lambda>n. None), channel_calls = 0, outbox = [],
      ids = (\<lambda>n. replicate (Suc n) CHR ''r''), id_calls = 0,
      market = (\<lambda>c. Inr None), clock = 1793614200123, logged = []\<rparr>"

definition failingHandler :: "World \<Rightarrow> (error + unit) \<times> World" where
  "failingHandler w = (Inl (Error ''upstream unavailable''), sleep w 5)"

text \<open>
  A handler that sends one message, and a channel that accepts the second send only.
\<close>

definition pingHandler :: "World \<Rightarrow> (error + unit) \<times> World" where
  "pingHandler w = sendMessage w 1001 ''ping''"

definition flakyWorld :: World where
  "flakyWorld = quietWorld\<lparr>channel_faults := (\<lambda>n. if n = 1 then None else Some ''ETIMEDOUT'')\<rparr>"

definition sampleJob :: "(World \<Rightarrow> (error + unit) \<times> World) \<Rightarrow> int \<Rightarrow> ScheduledTask" where
  "sampleJob h n =
     \<lparr>id' = ''trending_coins_hourly'', name = ''trending'', cron = ''0 * * * *'', handler = h,
      enabled = True, error_count = 0, max_retries = n\<rparr>"

definition sampleScheduler :: "World \<Rightarrow> ScheduledTask \<Rightarrow> SchedulerService" where
  "sampleScheduler w task =
     scheduleTask \<lparr>tasks = Map.empty, runningTasks = [], max_concurrent_jobs = 5, world = w\<rparr> task"

definition busyScheduler :: SchedulerService where
  "busyScheduler =
     (sampleScheduler quietWorld (sampleJob failingHandler 3))
       \<lparr>runningTasks := [''price_comparison_hourly'', ''check_price_alerts''],
        max_concurrent_jobs := 2\<rparr>"

definition subscriber :: "int \<Rightarrow> string \<Rightarrow> bool \<Rightarrow> UserSubscription" where
  "subscriber n t act =
     \<lparr>user_id = n, chat_id = 1000 + n, subscription_type = t, is_active = act,
      frequency = ''0 * * * *'', symbols = [], exchanges = [], price_threshold = None,
      created_at = ''2026-10-01T00:00:00.000Z'', updated_at = ''2026-10-01T00:00:00.000Z''\<rparr>"

definition pushed :: "string \<Rightarrow> int \<Rightarrow> PushHistory" where
  "pushed ident t =
     \<lparr>record_id = ident, record_user_id = 1, record_chat_id = 1001, record_type = ''trending'',
      content = ''hello'', success = True, error_message = None,
      record_timestamp = toISOString t\<rparr>"



section \<open>Vocabulary of the properties\<close>

text \<open>The store accepts every statement.\<close>

definition storeUp :: "World \<Rightarrow> bool" where
  "storeUp w = (\<forall>n. db_faults w n = None)"

text \<open>
  What the push record of one delivery must say: \<open>p\<close> pairs the number of the send with
  the subscription it went to.
\<close>

definition expectedOutcome :: "World \<Rightarrow> string \<Rightarrow> string \<Rightarrow> nat \<times> UserSubscription
    \<Rightarrow> int \<times> int \<times> string \<times> string \<times> bool \<times> string option" where
  "expectedOutcome w stype msg p =
     (user_id (snd p), chat_id (snd p), stype, msg,
      channel_faults w (fst p) = None, channel_faults w (fst p))"

definition daysMs :: "int \<Rightarrow> int" where
  "daysMs n = n * 24 * 60 * 60 * 1000"





text \<open>The handler of the job registered under the id throws when run from this state.\<close>

definition handlerFails :: "SchedulerService \<Rightarrow> string \<Rightarrow> bool" where
  "handlerFails s taskId =
     (case tasks s taskId of
        None \<Rightarrow> False
      | Some t \<Rightarrow> isl (fst (handler (job t) (logTo (world s) LogInfo ''Executing task'' taskId))))"

section \<open>Properties of the price comparison\<close>

lemma quotedPrice_None: "quotedPrice r = None \<Longrightarrow> collectSettled (r # rs) = collectSettled rs"
  by (cases r rule: quotedPrice.cases) simp_all

lemma quotedPrice_Some:
  "quotedPrice r = Some p \<Longrightarrow> \<exists>q. r = Inr (Some q) \<and> price q = p"
  by (cases r rule: quotedPrice.cases) simp_all

lemma compareQuotes_low_high:
  assumes "price a = 100" "price b = 105"
  shows "compareQuotes smb now [a, b] frs = Inr (Some
      \<lparr>pc_symbol = smb, prices = [a, b], best_price = a, worst_price = b,
       price_difference = 5, price_difference_percentage = Num 5,
       funding_rates = (if length frs > 0 then Some frs else None), pc_timestamp = now\<rparr>)"
  using assms by (simp add: compareQuotes_def Let_def js_div_def)

lemma compareQuotes_high_low:
  assumes "price a = 105" "price b = 100"
  shows "compareQuotes smb now [a, b] frs = Inr (Some
      \<lparr>pc_symbol = smb, prices = [a, b], best_price = b, worst_price = a,
       price_difference = 5, price_difference_percentage = Num 5,
       funding_rates = (if length frs > 0 then Some frs else None), pc_timestamp = now\<rparr>)"
  using assms by (simp add: compareQuotes_def Let_def js_div_def)

lemma compareQuotes_pair:
  assumes "{price a, price b} = {100, 105}"
  shows "\<exists>c. compareQuotes smb now [a, b] frs = Inr (Some c)
           \<and> price (best_price c) = 100 \<and> price (worst_price c) = 105
           \<and> price_difference c = 5 \<and> price_difference_percentage c = Num 5
           \<and> prices c = [a, b]"
proof -
  from assms have "price a = 100 \<and> price b = 105 \<or> price a = 105 \<and> price b = 100"
    by (auto simp: doubleton_eq_iff)
  then show ?thesis
  proof
    assume h: "price a = 100 \<and> price b = 105"
    show ?thesis
      using compareQuotes_low_high[of a b smb now frs] h by simp
  next
    assume h: "price a = 105 \<and> price b = 100"
    show ?thesis
      using compareQuotes_high_low[of a b smb now frs] h by simp
  qed
qed

text \<open>
  C2. Of the three sources one delivers no quote and the other two deliver the prices
  100 and 105, in any arrangement. Then \<open>comparePrices\<close> returns a comparison whose best
  price is 100, whose worst price is 105, whose difference is 5 and 5 percent, and whose
  list holds exactly the two quotes that were delivered.
\<close>

theorem comparePrices_one_source_down:
  assumes "map quotedPrice [getBinancePrice api smb now, getOKXPrice api smb now,
                           getBybitPrice api smb now]
           \<in> {[None, Some 100, Some 105], [None, Some 105, Some 100],
              [Some 100, None, Some 105], [Some 105, None, Some 100],
              [Some 100, Some 105, None], [Some 105, Some 100, None]}"
  shows "\<exists>c. comparePrices api smb inc now = Inr (Some c)
           \<and> price (best_price c) = 100 \<and> price (worst_price c) = 105
           \<and> price_difference c = 5 \<and> price_difference_percentage c = Num 5
           \<and> prices c = getAllPrices api smb now \<and> length (prices c) = 2"
proof -
  let ?rs = "[getBinancePrice api smb now, getOKXPrice api smb now, getBybitPrice api smb now]"
  let ?frs = "if inc then getAllFundingRates api smb now else []"
  have "\<exists>a b. collectSettled ?rs = [a, b] \<and> {price a, price b} = {100, 105}"
    using assms
    by (auto dest!: quotedPrice_Some simp: quotedPrice_None)
  then obtain a b where ab: "getAllPrices api smb now = [a, b]" "{price a, price b} = {100, 105}"
    unfolding getAllPrices_def by blast
  from compareQuotes_pair[OF ab(2), of smb now ?frs] show ?thesis
    by (auto simp: comparePrices_def ab(1))
qed

theorem comparePrices_one_source_down_witness:
  "map quotedPrice
     [getBinancePrice (sampleApi (Inr (105, 7)) (Inl (ApiError ''okx API error: timeout'' 0))
                         (Inr [(100, 3)])) ''BTCUSDT'' 0,
      getOKXPrice (sampleApi (Inr (105, 7)) (Inl (ApiError ''okx API error: timeout'' 0))
                     (Inr [(100, 3)])) ''BTCUSDT'' 0,
      getBybitPrice (sampleApi (Inr (105, 7)) (Inl (ApiError ''okx API error: timeout'' 0))
                       (Inr [(100, 3)])) ''BTCUSDT'' 0]
     = [Some 105, None, Some 100]
   \<and> (\<exists>c. comparePrices (sampleApi (Inr (105, 7)) (Inl (ApiError ''okx API error: timeout'' 0))
                            (Inr [(100, 3)])) ''BTCUSDT'' False 0 = Inr (Some c)
           \<and> price (best_price c) = 100 \<and> price (worst_price c) = 105
           \<and> price_difference c = 5 \<and> price_difference_percentage c = Num 5
           \<and> length (prices c) = 2)"
proof -
  let ?api = "sampleApi (Inr (105, 7)) (Inl (ApiError ''okx API error: timeout'' 0)) (Inr [(100, 3)])"
  have h: "map quotedPrice [getBinancePrice ?api ''BTCUSDT'' 0, getOKXPrice ?api ''BTCUSDT'' 0,
                           getBybitPrice ?api ''BTCUSDT'' 0] = [Some 105, None, Some 100]"
    by (simp add: sampleApi_def getBinancePrice_def getOKXPrice_def getBybitPrice_def mkPrice_def)
  then have "map quotedPrice [getBinancePrice ?api ''BTCUSDT'' 0, getOKXPrice ?api ''BTCUSDT'' 0,
                           getBybitPrice ?api ''BTCUSDT'' 0]
           \<in> {[None, Some 100, Some 105], [None, Some 105, Some 100],
              [Some 100, None, Some 105], [Some 105, None, Some 100],
              [Some 100, Some 105, None], [Some 105, Some 100, None]}"
    by simp
  from comparePrices_one_source_down[OF this, of False] h show ?thesis
    by blast
qed

subsection \<open>Ties between sources\<close>

lemma hd_sort_key_Min:
  assumes "xs \<noteq> []"
  shows "f (hd (sort_key f xs)) = Min (f ` set xs)"
proof -
  let ?s = "sort_key f xs"
  have ne: "?s \<noteq> []" using assms by (metis length_sort list.size(3) length_0_conv)
  have srt: "sorted (map f ?s)" by simp
  have "\<forall>y\<in>set ?s. f (hd ?s) \<le> f y"
    using srt ne by (cases ?s) (auto)
  then have "\<forall>y\<in>set xs. f (hd ?s) \<le> f y" by simp
  moreover have "hd ?s \<in> set xs" using ne by (metis hd_in_set set_sort)
  ultimately show ?thesis
    by (intro Min_eqI[symmetric]) auto
qed

lemma sorted_last_greatest:
  "sorted (map f ys) \<Longrightarrow> y \<in> set ys \<Longrightarrow> f y \<le> f (last ys)"
  by (induction ys) (auto split: if_splits)

lemma last_sort_key_Max:
  assumes "xs \<noteq> []"
  shows "f (last (sort_key f xs)) = Max (f ` set xs)"
proof -
  let ?s = "sort_key f xs"
  have ne: "?s \<noteq> []" using assms by (metis length_sort list.size(3) length_0_conv)
  have "\<forall>y\<in>set ?s. f y \<le> f (last ?s)"
    by (simp add: sorted_last_greatest)
  then have "\<forall>y\<in>set xs. f y \<le> f (last ?s)" by simp
  moreover have "last ?s \<in> set xs" using ne by (metis last_in_set set_sort)
  ultimately show ?thesis
    by (intro Max_eqI[symmetric]) auto
qed

lemma filter_nonempty: "x \<in> set xs \<Longrightarrow> P x \<Longrightarrow> filter P xs \<noteq> []"
  by (auto simp: filter_empty_conv)

lemma last_filter_keep: "xs \<noteq> [] \<Longrightarrow> P (last xs) \<Longrightarrow> last (filter P xs) = last xs"
proof (induction xs)
  case Nil
  then show ?case by simp
next
  case (Cons a xs)
  show ?case
  proof (cases "xs = []")
    case True
    with Cons.prems show ?thesis by simp
  next
    case False
    with Cons.prems have P: "P (last xs)" by simp
    then have "filter P xs \<noteq> []"
      using False by (intro filter_nonempty[of "last xs"]) simp_all
    with Cons.IH[OF False P] False show ?thesis by simp
  qed
qed

lemma hd_filter_keep: "xs \<noteq> [] \<Longrightarrow> P (hd xs) \<Longrightarrow> hd (filter P xs) = hd xs"
  by (cases xs) auto

lemma find_hd_filter: "filter P xs \<noteq> [] \<Longrightarrow> find P xs = Some (hd (filter P xs))"
  by (induction xs) (auto split: if_splits)

lemma find_rev_last_filter: "filter P xs \<noteq> [] \<Longrightarrow> find P (rev xs) = Some (last (filter P xs))"
proof -
  assume a: "filter P xs \<noteq> []"
  then have "filter P (rev xs) \<noteq> []" by (metis rev_filter rev_is_Nil_conv)
  then have "find P (rev xs) = Some (hd (filter P (rev xs)))" by (rule find_hd_filter)
  also have "hd (filter P (rev xs)) = last (filter P xs)"
    using a by (simp add: rev_filter[symmetric] hd_rev)
  finally show ?thesis .
qed

lemma best_is_first_min:
  assumes "ps \<noteq> []"
  shows "find (\<lambda>q. f q = Min (f ` set ps)) ps = Some (hd (sort_key f ps))"
proof -
  let ?s = "sort_key f ps" and ?P = "\<lambda>q. f q = Min (f ` set ps)"
  have ne: "?s \<noteq> []" using assms by (metis length_sort list.size(3) length_0_conv)
  have P: "?P (hd ?s)" using assms by (rule hd_sort_key_Min)
  have "hd (filter ?P ?s) = hd ?s" using ne P by (rule hd_filter_keep)
  moreover have "filter ?P ?s = filter ?P ps" by (rule sort_key_stable)
  moreover have "filter ?P ?s \<noteq> []"
    using filter_nonempty[of "hd ?s" ?s ?P] hd_in_set[OF ne] P by blast
  ultimately show ?thesis using find_hd_filter[of ?P ps] by simp
qed

lemma worst_is_last_max:
  assumes "ps \<noteq> []"
  shows "find (\<lambda>q. f q = Max (f ` set ps)) (rev ps) = Some (last (sort_key f ps))"
proof -
  let ?s = "sort_key f ps" and ?P = "\<lambda>q. f q = Max (f ` set ps)"
  have ne: "?s \<noteq> []" using assms by (metis length_sort list.size(3) length_0_conv)
  have P: "?P (last ?s)" using assms by (rule last_sort_key_Max)
  have "last (filter ?P ?s) = last ?s" using ne P by (rule last_filter_keep)
  moreover have "filter ?P ?s = filter ?P ps" by (rule sort_key_stable)
  moreover have "filter ?P ?s \<noteq> []"
    using filter_nonempty[of "last ?s" ?s ?P] last_in_set[OF ne] P by blast
  ultimately show ?thesis using find_rev_last_filter[of ?P ps] by simp
qed

lemma compareQuotes_Some:
  assumes "compareQuotes smb now ps frs = Inr (Some c)"
  shows "ps \<noteq> []" and "prices c = ps" and "best_price c = hd (sort_key price ps)"
    and "worst_price c = last (sort_key price ps)"
proof -
  show ne: "ps \<noteq> []" using assms by (auto simp: compareQuotes_def)
  then have "c = \<lparr>pc_symbol = smb, prices = ps, best_price = hd (sort_key price ps),
       worst_price = last (sort_key price ps),
       price_difference = price (last (sort_key price ps)) - price (hd (sort_key price ps)),
       price_difference_percentage =
         js_times (js_div (price (last (sort_key price ps)) - price (hd (sort_key price ps)))
                     (price (hd (sort_key price ps)))) 100,
       funding_rates = (if length frs > 0 then Some frs else None),
       pc_timestamp = now\<rparr>"
    using assms by (simp add: compareQuotes_def Let_def)
  then show "prices c = ps" and "best_price c = hd (sort_key price ps)"
    and "worst_price c = last (sort_key price ps)" by simp_all
qed

text \<open>
  C3, as the code has it. Binance quotes 100, OKX and Bybit both quote 105: the maximum
  is shared, OKX comes first in the source order, and the worst price returned is the
  quote of Bybit.
\<close>

theorem comparePrices_worst_tie_counterexample:
  "comparePrices (sampleApi (Inr (100, 1)) (Inr [(105, 2)]) (Inr [(105, 3)])) ''BTCUSDT'' False 0
   = Inr (Some \<lparr>pc_symbol = ''BTCUSDT'',
       prices = [mkPrice BINANCE ''BTCUSDT'' 0 (100, 1), mkPrice OKX ''BTCUSDT'' 0 (105, 2),
                 mkPrice BYBIT ''BTCUSDT'' 0 (105, 3)],
       best_price = mkPrice BINANCE ''BTCUSDT'' 0 (100, 1),
       worst_price = mkPrice BYBIT ''BTCUSDT'' 0 (105, 3),
       price_difference = 5, price_difference_percentage = Num 5, funding_rates = None,
       pc_timestamp = 0\<rparr>)"
  by (simp add: sampleApi_def comparePrices_def compareQuotes_def getAllPrices_def
      getBinancePrice_def getOKXPrice_def getBybitPrice_def mkPrice_def js_div_def Let_def)

text \<open>
  C3, amended. Whenever \<open>comparePrices\<close> returns a comparison, its quotes are the
  successful ones in source order (Binance, OKX, Bybit); the best price is the first
  quote in that order with the minimum price, and the worst price is the last quote in
  that order with the maximum price.
\<close>

theorem comparePrices_tie_break:
  assumes "comparePrices api smb inc now = Inr (Some c)"
  shows "prices c = getAllPrices api smb now
       \<and> find (\<lambda>q. price q = Min (price ` set (prices c))) (prices c) = Some (best_price c)
       \<and> find (\<lambda>q. price q = Max (price ` set (prices c))) (rev (prices c)) = Some (worst_price c)"
proof -
  let ?ps = "getAllPrices api smb now"
  from assms have q: "compareQuotes smb now ?ps (if inc then getAllFundingRates api smb now else [])
      = Inr (Some c)"
    by (simp add: comparePrices_def)
  note c = compareQuotes_Some[OF q]
  show ?thesis
    using best_is_first_min[OF c(1), of price] worst_is_last_max[OF c(1), of price]
    by (simp only: c simp_thms)
qed

theorem comparePrices_tie_break_witness:
  "\<exists>c. comparePrices (sampleApi (Inr (100, 1)) (Inr [(100, 2)]) (Inr [(105, 3)])) ''ETHUSDT'' False 0
          = Inr (Some c)
      \<and> exchange (best_price c) = BINANCE \<and> exchange (worst_price c) = BYBIT
      \<and> find (\<lambda>q. price q = Min (price ` set (prices c))) (prices c) = Some (best_price c)
      \<and> find (\<lambda>q. price q = Max (price ` set (prices c))) (rev (prices c)) = Some (worst_price c)"
proof -
  let ?c = "\<lparr>pc_symbol = ''ETHUSDT'',
       prices = [mkPrice BINANCE ''ETHUSDT'' 0 (100, 1), mkPrice OKX ''ETHUSDT'' 0 (100, 2),
                 mkPrice BYBIT ''ETHUSDT'' 0 (105, 3)],
       best_price = mkPrice BINANCE ''ETHUSDT'' 0 (100, 1),
       worst_price = mkPrice BYBIT ''ETHUSDT'' 0 (105, 3),
       price_difference = 5, price_difference_percentage = Num 5, funding_rates = None,
       pc_timestamp = 0\<rparr>"
  have h: "comparePrices (sampleApi (Inr (100, 1)) (Inr [(100, 2)]) (Inr [(105, 3)])) ''ETHUSDT''
             False 0 = Inr (Some ?c)"
    by (simp add: sampleApi_def comparePrices_def compareQuotes_def getAllPrices_def
        getBinancePrice_def getOKXPrice_def getBybitPrice_def mkPrice_def js_div_def Let_def)
  have e: "exchange (best_price ?c) = BINANCE \<and> exchange (worst_price ?c) = BYBIT"
    by (simp add: mkPrice_def)
  from comparePrices_tie_break[OF h] h e show ?thesis
    by blast
qed

text \<open>
  C7. When no source delivers a quote (each request ended in an error, or OKX or Bybit
  answered with an empty list), \<open>comparePrices\<close> returns null and does not throw.
\<close>

theorem comparePrices_all_sources_fail:
  assumes "isl (binance_ticker api)"
    and "isl (okx_ticker api) \<or> okx_ticker api = Inr []"
    and "isl (bybit_ticker api) \<or> bybit_ticker api = Inr []"
  shows "comparePrices api smb inc now = Inr None"
  using assms
  by (auto simp: comparePrices_def compareQuotes_def getAllPrices_def getBinancePrice_def
      getOKXPrice_def getBybitPrice_def isl_def)

theorem comparePrices_all_sources_fail_witness:
  "isl (binance_ticker (sampleApi (Inl (RateLimitError ''binance API rate limit exceeded''))
          (Inl (ApiError ''okx API error: timeout'' 0)) (Inr [])))
   \<and> comparePrices (sampleApi (Inl (RateLimitError ''binance API rate limit exceeded''))
          (Inl (ApiError ''okx API error: timeout'' 0)) (Inr [])) ''BTCUSDT'' True 0 = Inr None"
proof -
  let ?api = "sampleApi (Inl (RateLimitError ''binance API rate limit exceeded''))
          (Inl (ApiError ''okx API error: timeout'' 0)) (Inr [])"
  have 1: "isl (binance_ticker ?api)" by (simp add: sampleApi_def)
  have 2: "isl (okx_ticker ?api) \<or> okx_ticker ?api = Inr []" by (simp add: sampleApi_def)
  have 3: "isl (bybit_ticker ?api) \<or> bybit_ticker ?api = Inr []" by (simp add: sampleApi_def)
  from comparePrices_all_sources_fail[OF 1 2 3] 1 show ?thesis by blast
qed


section \<open>Properties of the request throttles\<close>













section \<open>Properties of the scheduler\<close>

text \<open>
  C9. When a job's schedule fires while the number of running jobs is at or above
  \<open>max_concurrent_jobs\<close>, \<open>executeTask\<close> returns a result that reports the skip; the
  handler is not invoked (the collaborators are untouched), and the scheduler's state is
  the old one with one warning appended to the log. In particular no job's
  \<open>error_count\<close> changes and no timer is stopped.
\<close>

theorem executeTask_skip_at_ceiling:
  assumes "max_concurrent_jobs s \<le> int (length (runningTasks s))"
  shows "executeTask s task =
     (\<lparr>task_id = id' task, task_success = False,
       task_error = Some ''Max concurrent jobs reached''\<rparr>,
      s\<lparr>world := (world s)\<lparr>logged := logged (world s) @
           [(LogWarn, ''Max concurrent jobs reached, skipping task'', id' task)]\<rparr>\<rparr>)"
  using assms by (simp add: executeTask_def logS_def logTo_def)


lemma broadcast_resolves: "fst (broadcastToSubscribers w t m) = Inr ()"
proof -
  obtain r w1 where g: "getActiveSubscriptions w (Some t) = (r, w1)"
    by (cases "getActiveSubscriptions w (Some t)")
  show ?thesis
  proof (cases r)
    case (Inl e)
    with g show ?thesis by (simp add: broadcastToSubscribers_def)
  next
    case (Inr subs)
    obtain r2 w2 where d: "deliverAll w1 t m subs = (r2, w2)"
      by (cases "deliverAll w1 t m subs")
    with g Inr show ?thesis
      by (cases r2) (simp_all add: broadcastToSubscribers_def)
  qed
qed

lemma executeTask_success:
  assumes "handler task (world (logS (s\<lparr>runningTasks := setAdd (id' task) (runningTasks s)\<rparr>)
              LogInfo ''Executing task'' (id' task))) = (Inr (), w')"
    and "int (length (runningTasks s)) < max_concurrent_jobs s"
  shows "fst (executeTask s task) = \<lparr>task_id = id' task, task_success = True, task_error = None\<rparr>"
    and "tasks (snd (executeTask s task)) = tasks s"
  using assms by (simp_all add: executeTask_def Let_def logS_def)

text \<open>
  C10. \<open>broadcastToSubscribers\<close> resolves for every state of the collaborators, whatever
  the store and the channel answer. A job whose handler is the broadcast therefore ends
  an execution with a successful result, and the execution changes no timer: the job's
  \<open>error_count\<close> and its started state are as before.
\<close>

theorem broadcast_never_rejects:
  assumes "handler task = (\<lambda>w. broadcastToSubscribers w stype msg)"
    and "int (length (runningTasks s)) < max_concurrent_jobs s"
  shows "fst (broadcastToSubscribers w stype msg) = Inr ()
       \<and> fst (executeTask s task) = \<lparr>task_id = id' task, task_success = True, task_error = None\<rparr>
       \<and> tasks (snd (executeTask s task)) = tasks s"
proof -
  let ?w = "world (logS (s\<lparr>runningTasks := setAdd (id' task) (runningTasks s)\<rparr>)
              LogInfo ''Executing task'' (id' task))"
  obtain r w' where b: "broadcastToSubscribers ?w stype msg = (r, w')"
    by (cases "broadcastToSubscribers ?w stype msg")
  with broadcast_resolves[of ?w stype msg] have "r = Inr ()" by simp
  with b assms(1) have h: "handler task ?w = (Inr (), w')" by simp
  from executeTask_success[OF h assms(2)] broadcast_resolves[of w stype msg]
  show ?thesis by simp
qed

theorem broadcast_never_rejects_witness:
  "handler (sampleJob (\<lambda>w. broadcastToSubscribers w ''trending'' ''hello'') 3)
     = (\<lambda>w. broadcastToSubscribers w ''trending'' ''hello'')
   \<and> int (length (runningTasks (sampleScheduler (quietWorld\<lparr>db_faults := (\<lambda>n. Some ''SQLITE_BUSY'')\<rparr>)
         (sampleJob (\<lambda>w. broadcastToSubscribers w ''trending'' ''hello'') 3)))) < 5
   \<and> fst (broadcastToSubscribers (quietWorld\<lparr>db_faults := (\<lambda>n. Some ''SQLITE_BUSY'')\<rparr>)
           ''trending'' ''hello'') = Inr ()
   \<and> task_success (fst (executeTask
        (sampleScheduler (quietWorld\<lparr>db_faults := (\<lambda>n. Some ''SQLITE_BUSY'')\<rparr>)
           (sampleJob (\<lambda>w. broadcastToSubscribers w ''trending'' ''hello'') 3))
        (sampleJob (\<lambda>w. broadcastToSubscribers w ''trending'' ''hello'') 3)))"
proof -
  let ?job = "sampleJob (\<lambda>w. broadcastToSubscribers w ''trending'' ''hello'') 3"
  let ?s = "sampleScheduler (quietWorld\<lparr>db_faults := (\<lambda>n. Some ''SQLITE_BUSY'')\<rparr>) ?job"
  have 1: "handler ?job = (\<lambda>w. broadcastToSubscribers w ''trending'' ''hello'')"
    by (simp add: sampleJob_def)
  have 2: "int (length (runningTasks ?s)) < max_concurrent_jobs ?s"
    by (simp add: sampleScheduler_def scheduleTask_def logS_def Let_def)
  have 3: "max_concurrent_jobs ?s = 5"
    by (simp add: sampleScheduler_def scheduleTask_def logS_def Let_def)
  from broadcast_never_rejects[OF 1 2, of "quietWorld\<lparr>db_faults := (\<lambda>n. Some ''SQLITE_BUSY'')\<rparr>"]
    1 2 3 show ?thesis
    by simp
qed

section \<open>Properties of the dispatcher and of the store\<close>

lemma addRecord_ok:
  assumes "storeUp w"
  shows "\<exists>w' r. addRecord w uid cid stype msg ok err = (Inr (record_id r), w')
     \<and> push_history w' = push_history w @ [r]
     \<and> pushOutcome r = (uid, cid, stype, msg, ok, err)
     \<and> db_faults w' = db_faults w \<and> channel_faults w' = channel_faults w
     \<and> channel_calls w' = channel_calls w \<and> outbox w' = outbox w"
  using assms
  by (simp add: storeUp_def addRecord_def dbFault_def dbDone_def logTo_def pushOutcome_def Let_def)

lemma deliver_ok:
  assumes "storeUp w"
  shows "\<exists>w' r. deliver w stype msg sub = (Inr (), w')
     \<and> push_history w' = push_history w @ [r]
     \<and> pushOutcome r = expectedOutcome w stype msg (channel_calls w, sub)
     \<and> db_faults w' = db_faults w \<and> channel_faults w' = channel_faults w
     \<and> channel_calls w' = Suc (channel_calls w)
     \<and> outbox w' = outbox w @ (if channel_faults w (channel_calls w) = None
                                 then [(chat_id sub, msg)] else [])"
proof (cases "channel_faults w (channel_calls w)")
  case None
  let ?w1 = "w\<lparr>channel_calls := Suc (channel_calls w), outbox := outbox w @ [(chat_id sub, msg)]\<rparr>"
  have s: "sendMessage w (chat_id sub) msg = (Inr (), ?w1)"
    by (simp add: sendMessage_def None)
  have up: "storeUp ?w1" using assms by (simp add: storeUp_def)
  from addRecord_ok[OF up, of "user_id sub" "chat_id sub" stype msg True None]
  obtain w2 r where a: "addRecord ?w1 (user_id sub) (chat_id sub) stype msg True None
        = (Inr (record_id r), w2)"
    "push_history w2 = push_history ?w1 @ [r]"
    "pushOutcome r = (user_id sub, chat_id sub, stype, msg, True, None)"
    "db_faults w2 = db_faults ?w1" "channel_faults w2 = channel_faults ?w1"
    "channel_calls w2 = channel_calls ?w1" "outbox w2 = outbox ?w1"
    by blast
  have "deliver w stype msg sub = (Inr (), sleep w2 100)"
    by (simp add: deliver_def s a(1))
  with a None show ?thesis
    by (simp add: sleep_def expectedOutcome_def)
next
  case (Some m)
  let ?w1 = "w\<lparr>channel_calls := Suc (channel_calls w)\<rparr>"
  let ?w1' = "logTo ?w1 LogError ''Failed to send broadcast message'' stype"
  have s: "sendMessage w (chat_id sub) msg = (Inl (Error m), ?w1)"
    by (simp add: sendMessage_def Some)
  have up: "storeUp ?w1'" using assms by (simp add: storeUp_def logTo_def)
  from addRecord_ok[OF up, of "user_id sub" "chat_id sub" stype msg False "Some m"]
  obtain w2 r where a: "addRecord ?w1' (user_id sub) (chat_id sub) stype msg False (Some m)
        = (Inr (record_id r), w2)"
    "push_history w2 = push_history ?w1' @ [r]"
    "pushOutcome r = (user_id sub, chat_id sub, stype, msg, False, Some m)"
    "db_faults w2 = db_faults ?w1'" "channel_faults w2 = channel_faults ?w1'"
    "channel_calls w2 = channel_calls ?w1'" "outbox w2 = outbox ?w1'"
    by blast
  have "deliver w stype msg sub = (Inr (), w2)"
    by (simp add: deliver_def s recordFailure_def a(1))
  with a Some show ?thesis
    by (simp add: logTo_def expectedOutcome_def)
qed

lemma expectedOutcome_cong:
  "channel_faults w' = channel_faults w \<Longrightarrow> expectedOutcome w' stype msg = expectedOutcome w stype msg"
  by (rule ext) (simp add: expectedOutcome_def)

lemma deliverAll_ok:
  assumes "storeUp w"
  shows "\<exists>w' rs. deliverAll w stype msg subs = (Inr (), w')
     \<and> push_history w' = push_history w @ rs
     \<and> map pushOutcome rs = map (expectedOutcome w stype msg) (enumerate (channel_calls w) subs)
     \<and> channel_calls w' = channel_calls w + length subs
     \<and> outbox w' = outbox w @ map (\<lambda>p. (chat_id (snd p), msg))
          (filter (\<lambda>p. channel_faults w (fst p) = None) (enumerate (channel_calls w) subs))"
  using assms
proof (induction subs arbitrary: w)
  case Nil
  then show ?case by simp
next
  case (Cons sub subs)
  from deliver_ok[OF Cons.prems, of stype msg sub]
  obtain w1 r where d: "deliver w stype msg sub = (Inr (), w1)"
    "push_history w1 = push_history w @ [r]"
    "pushOutcome r = expectedOutcome w stype msg (channel_calls w, sub)"
    "db_faults w1 = db_faults w" "channel_faults w1 = channel_faults w"
    "channel_calls w1 = Suc (channel_calls w)"
    "outbox w1 = outbox w @ (if channel_faults w (channel_calls w) = None
                                 then [(chat_id sub, msg)] else [])"
    by blast
  have up: "storeUp w1" using Cons.prems d(4) by (simp add: storeUp_def)
  from Cons.IH[OF up]
  obtain w' rs where r: "deliverAll w1 stype msg subs = (Inr (), w')"
    "push_history w' = push_history w1 @ rs"
    "map pushOutcome rs = map (expectedOutcome w1 stype msg) (enumerate (channel_calls w1) subs)"
    "channel_calls w' = channel_calls w1 + length subs"
    "outbox w' = outbox w1 @ map (\<lambda>p. (chat_id (snd p), msg))
          (filter (\<lambda>p. channel_faults w1 (fst p) = None) (enumerate (channel_calls w1) subs))"
    by blast
  have "deliverAll w stype msg (sub # subs) = (Inr (), w')"
    by (simp add: d(1) r(1))
  moreover have "push_history w' = push_history w @ (r # rs)"
    by (simp add: r(2) d(2))
  moreover have "map pushOutcome (r # rs)
      = map (expectedOutcome w stype msg) (enumerate (channel_calls w) (sub # subs))"
    by (simp add: r(3) d(3,6) expectedOutcome_cong[OF d(5)])
  moreover have "channel_calls w' = channel_calls w + length (sub # subs)"
    by (simp add: r(4) d(6))
  moreover have "outbox w' = outbox w @ map (\<lambda>p. (chat_id (snd p), msg))
          (filter (\<lambda>p. channel_faults w (fst p) = None) (enumerate (channel_calls w) (sub # subs)))"
    by (simp add: r(5) d(5,6,7))
  ultimately show ?case by blast
qed

text \<open>
  C4. With the store accepting its statements, a broadcast to the active subscribers of
  a category appends exactly one push record per subscriber, in the order of the
  subscriber list; the record of a subscriber says success when the send to it was
  accepted and otherwise failure with the error text of that send. Every subscriber is
  sent to, whatever happened to the sends before it, and the channel has delivered the
  message to exactly the subscribers whose send was accepted.
\<close>

theorem broadcast_records_every_subscriber:
  assumes "storeUp w"
  shows "\<exists>rs. push_history (snd (broadcastToSubscribers w stype msg)) = push_history w @ rs
     \<and> map pushOutcome rs = map (expectedOutcome w stype msg)
          (enumerate (channel_calls w)
             (filter (\<lambda>r. is_active r \<and> (stype = [] \<or> subscription_type r = stype))
                (subscriptions w)))
     \<and> channel_calls (snd (broadcastToSubscribers w stype msg))
        = channel_calls w + length (filter (\<lambda>r. is_active r \<and> (stype = [] \<or> subscription_type r = stype))
                (subscriptions w))
     \<and> outbox (snd (broadcastToSubscribers w stype msg))
        = outbox w @ map (\<lambda>p. (chat_id (snd p), msg))
            (filter (\<lambda>p. channel_faults w (fst p) = None)
               (enumerate (channel_calls w)
                  (filter (\<lambda>r. is_active r \<and> (stype = [] \<or> subscription_type r = stype))
                     (subscriptions w))))"
proof -
  let ?subs = "filter (\<lambda>r. is_active r \<and> (stype = [] \<or> subscription_type r = stype)) (subscriptions w)"
  let ?w1 = "dbDone w True ''subscriptions''"
  have g: "getActiveSubscriptions w (Some stype) = (Inr ?subs, ?w1)"
    using assms by (simp add: getActiveSubscriptions_def storeUp_def dbFault_def)
  have up: "storeUp ?w1" using assms by (simp add: storeUp_def dbDone_def logTo_def)
  have same: "push_history ?w1 = push_history w" "channel_calls ?w1 = channel_calls w"
    "channel_faults ?w1 = channel_faults w" "outbox ?w1 = outbox w"
    by (simp_all add: dbDone_def logTo_def)
  from deliverAll_ok[OF up, of stype msg ?subs]
  obtain w' rs where r: "deliverAll ?w1 stype msg ?subs = (Inr (), w')"
    "push_history w' = push_history ?w1 @ rs"
    "map pushOutcome rs = map (expectedOutcome ?w1 stype msg) (enumerate (channel_calls ?w1) ?subs)"
    "channel_calls w' = channel_calls ?w1 + length ?subs"
    "outbox w' = outbox ?w1 @ map (\<lambda>p. (chat_id (snd p), msg))
          (filter (\<lambda>p. channel_faults ?w1 (fst p) = None) (enumerate (channel_calls ?w1) ?subs))"
    by blast
  have b: "broadcastToSubscribers w stype msg = (Inr (), logTo w' LogInfo ''Broadcast completed'' stype)"
    by (simp add: broadcastToSubscribers_def g r(1))
  have "push_history (snd (broadcastToSubscribers w stype msg)) = push_history w @ rs"
    by (simp add: b logTo_def r(2) same)
  moreover have "map pushOutcome rs = map (expectedOutcome w stype msg) (enumerate (channel_calls w) ?subs)"
    by (simp add: r(3) same expectedOutcome_cong[OF same(3)])
  moreover have "channel_calls (snd (broadcastToSubscribers w stype msg)) = channel_calls w + length ?subs"
    by (simp add: b logTo_def r(4) same)
  moreover have "outbox (snd (broadcastToSubscribers w stype msg))
        = outbox w @ map (\<lambda>p. (chat_id (snd p), msg))
            (filter (\<lambda>p. channel_faults w (fst p) = None) (enumerate (channel_calls w) ?subs))"
    by (simp add: b logTo_def r(5) same)
  ultimately show ?thesis by blast
qed

theorem broadcast_records_every_subscriber_witness:
  "storeUp (quietWorld\<lparr>subscriptions := [subscriber 1 ''trending'' True, subscriber 2 ''trending'' True,
                subscriber 3 ''prices'' True, subscriber 4 ''trending'' False,
                subscriber 5 ''trending'' True],
              channel_faults := (\<lambda>n. if n = 1 then Some ''ETELEGRAM: 403 Forbidden'' else None)\<rparr>)
   \<and> map pushOutcome (push_history (snd (broadcastToSubscribers
         (quietWorld\<lparr>subscriptions := [subscriber 1 ''trending'' True, subscriber 2 ''trending'' True,
                subscriber 3 ''prices'' True, subscriber 4 ''trending'' False,
                subscriber 5 ''trending'' True],
              channel_faults := (\<lambda>n. if n = 1 then Some ''ETELEGRAM: 403 Forbidden'' else None)\<rparr>)
         ''trending'' ''hello'')))
     = [(1, 1001, ''trending'', ''hello'', True, None),
        (2, 1002, ''trending'', ''hello'', False, Some ''ETELEGRAM: 403 Forbidden''),
        (5, 1005, ''trending'', ''hello'', True, None)]"
proof -
  let ?w = "quietWorld\<lparr>subscriptions := [subscriber 1 ''trending'' True, subscriber 2 ''trending'' True,
                subscriber 3 ''prices'' True, subscriber 4 ''trending'' False,
                subscriber 5 ''trending'' True],
              channel_faults := (\<lambda>n. if n = 1 then Some ''ETELEGRAM: 403 Forbidden'' else None)\<rparr>"
  have up: "storeUp ?w" by (simp add: storeUp_def quietWorld_def)
  have h: "push_history ?w = []" "channel_calls ?w = 0"
    by (simp_all add: quietWorld_def)
  have e: "map (expectedOutcome ?w ''trending'' ''hello'')
          (enumerate 0 (filter (\<lambda>r. is_active r \<and> (''trending'' = [] \<or> subscription_type r = ''trending''))
                (subscriptions ?w)))
     = [(1, 1001, ''trending'', ''hello'', True, None),
        (2, 1002, ''trending'', ''hello'', False, Some ''ETELEGRAM: 403 Forbidden''),
        (5, 1005, ''trending'', ''hello'', True, None)]"
    by (simp add: quietWorld_def subscriber_def expectedOutcome_def)
  from broadcast_records_every_subscriber[OF up, of "''trending''" "''hello''"]
  obtain rs where r: "push_history (snd (broadcastToSubscribers ?w ''trending'' ''hello''))
      = push_history ?w @ rs"
    "map pushOutcome rs = map (expectedOutcome ?w ''trending'' ''hello'')
          (enumerate (channel_calls ?w)
             (filter (\<lambda>r. is_active r \<and> (''trending'' = [] \<or> subscription_type r = ''trending''))
                (subscriptions ?w)))"
    by blast
  from r(2) have "map pushOutcome rs = [(1, 1001, ''trending'', ''hello'', True, None),
        (2, 1002, ''trending'', ''hello'', False, Some ''ETELEGRAM: 403 Forbidden''),
        (5, 1005, ''trending'', ''hello'', True, None)]"
    unfolding h(2) e .
  with r(1) h(1) up show ?thesis by simp
qed

subsection \<open>Order of the ISO timestamps\<close>

text \<open>
  The store compares the \<open>timestamp\<close> column as text. Between 1970-01-01 and the end of
  the year 9999 the text of \<open>toISOString\<close> has segments of fixed width, most significant
  first, so the order of the texts is the order of the instants.
\<close>

lemma toISOString_samples: "toISOString 1791022200122 = ''2026-10-03T10:10:00.122Z''"
    "toISOString 1791022200123 = ''2026-10-03T10:10:00.123Z''"
    "toISOString 1793614200000 = ''2026-11-02T10:10:00.000Z''"
    "toISOString (-1) = ''1969-12-31T23:59:59.999Z''"
    "toISOString 951782400000 = ''2000-02-29T00:00:00.000Z''"
    "toISOString 253402300800000 = ''+010000-01-01T00:00:00.000Z''"
    "toISOString (-62198755200000) = ''-000001-01-01T00:00:00.000Z''"
    by code_simp+

lemma digit_val:
  assumes "0 \<le> a" and "a < 10"
  shows "(of_char (digit a) :: nat) = 48 + nat a"
proof -
  from assms have "a = 0 \<or> a = 1 \<or> a = 2 \<or> a = 3 \<or> a = 4 \<or> a = 5 \<or> a = 6 \<or> a = 7
      \<or> a = 8 \<or> a = 9" by arith
  then show ?thesis
    by (elim disjE) (simp_all add: digit_def)
qed

lemma digit_less:
  assumes "0 \<le> a" and "a < 10" and "0 \<le> b" and "b < 10"
  shows "(digit a < digit b) = (a < b)" and "(digit a = digit b) = (a = b)"
proof -
  show "(digit a < digit b) = (a < b)"
    unfolding less_char_def digit_val[OF assms(1,2)] digit_val[OF assms(3,4)]
    using assms by auto
  have "digit a = digit b \<Longrightarrow> a = b"
  proof -
    assume "digit a = digit b"
    then have "(of_char (digit a) :: nat) = of_char (digit b)" by simp
    then show "a = b"
      unfolding digit_val[OF assms(1,2)] digit_val[OF assms(3,4)] using assms by simp
  qed
  then show "(digit a = digit b) = (a = b)" by blast
qed

lemma length_pad: "length (pad k n) = k"
  by (induction k arbitrary: n) simp_all

lemma append_less:
  fixes u :: "'a::linorder list"
  assumes "length u = length u'"
  shows "(u @ v < u' @ v') = (u < u' \<or> u = u' \<and> v < v')"
  using assms by (induction u u' rule: list_induct2) auto

lemma divmod_less:
  fixes x y c :: int
  assumes "0 < c"
  shows "(x < y) = (x div c < y div c \<or> x div c = y div c \<and> x mod c < y mod c)"
proof -
  have x: "x = c * (x div c) + x mod c" and y: "y = c * (y div c) + y mod c" by simp_all
  have bx: "0 \<le> x mod c" "x mod c < c" and bY: "0 \<le> y mod c" "y mod c < c"
    using assms by simp_all
  consider (lt) "x div c < y div c" | (eq) "x div c = y div c" | (gt) "y div c < x div c"
    by linarith
  then show ?thesis
  proof cases
    case lt
    then have "x div c + 1 \<le> y div c" by simp
    then have "c * (x div c + 1) \<le> c * (y div c)"
      using assms by (simp add: mult_left_mono)
    then have "c * (x div c) + c \<le> c * (y div c)" by (simp add: algebra_simps)
    with x y bx bY have "x < y" by linarith
    with lt show ?thesis by simp
  next
    case eq
    with x y have "(x < y) = (x mod c < y mod c)" by (metis add_less_cancel_left)
    with eq show ?thesis by simp
  next
    case gt
    then have "y div c + 1 \<le> x div c" by simp
    then have "c * (y div c + 1) \<le> c * (x div c)"
      using assms by (simp add: mult_left_mono)
    then have "c * (y div c) + c \<le> c * (x div c)" by (simp add: algebra_simps)
    with x y bx bY have "y < x" by linarith
    with gt show ?thesis by simp
  qed
qed

lemma pad_less:
  assumes "0 \<le> a" and "a < 10 ^ k" and "0 \<le> b" and "b < 10 ^ k"
  shows "(pad k a < pad k b) = (a < b)"
  using assms
proof (induction k arbitrary: a b)
  case 0
  then show ?case by simp
next
  case (Suc k)
  have a: "0 \<le> a div 10" "a div 10 < 10 ^ k" using Suc.prems(1,2) by simp_all
  have b: "0 \<le> b div 10" "b div 10 < 10 ^ k" using Suc.prems(3,4) by simp_all
  have ih: "(pad k (a div 10) < pad k (b div 10)) = (a div 10 < b div 10)"
    by (rule Suc.IH[OF a b])
  have d: "(digit (a mod 10) < digit (b mod 10)) = (a mod 10 < b mod 10)"
    by (rule digit_less(1)) simp_all
  have l: "length (pad k (a div 10)) = length (pad k (b div 10))" by (simp add: length_pad)
  have "(pad (Suc k) a < pad (Suc k) b)
      = (pad k (a div 10) < pad k (b div 10)
         \<or> pad k (a div 10) = pad k (b div 10) \<and> digit (a mod 10) < digit (b mod 10))"
    by (simp add: append_less[OF l])
  also have "\<dots> = (a div 10 < b div 10
         \<or> pad k (a div 10) = pad k (b div 10) \<and> a mod 10 < b mod 10)"
    unfolding ih d ..
  finally have e: "(pad (Suc k) a < pad (Suc k) b)
      = (a div 10 < b div 10 \<or> pad k (a div 10) = pad k (b div 10) \<and> a mod 10 < b mod 10)" .
  have dm: "(a < b) = (a div 10 < b div 10 \<or> a div 10 = b div 10 \<and> a mod 10 < b mod 10)"
    by (rule divmod_less) simp
  show ?case
  proof (cases "a div 10 = b div 10")
    case True
    then show ?thesis unfolding e dm by simp
  next
    case False
    then have "pad k (a div 10) \<noteq> pad k (b div 10)"
    proof -
      from False consider "a div 10 < b div 10" | "b div 10 < a div 10" by linarith
      then show ?thesis
      proof cases
        case 1
        with ih have "pad k (a div 10) < pad k (b div 10)" by simp
        then show ?thesis by simp
      next
        case 2
        with Suc.IH[OF b a] have "pad k (b div 10) < pad k (a div 10)" by simp
        then show ?thesis by simp
      qed
    qed
    with False show ?thesis unfolding e dm by simp
  qed
qed


lemma pad_mono:
  assumes "0 \<le> a" and "a < b" and "b < 10 ^ k"
  shows "pad k a < pad k b"
proof -
  have "(pad k a < pad k b) = (a < b)"
    by (rule pad_less) (use assms in simp_all)
  with assms(2) show ?thesis by simp
qed

lemma seg_less:
  fixes u :: "'a::linorder list"
  assumes "length u = length u'" and "u < u' \<or> u = u' \<and> v < v'"
  shows "u @ v < u' @ v'"
  using assms(2) unfolding append_less[OF assms(1)] .

lemma yearFrom_step:
  "0 \<le> d \<Longrightarrow> daysInYear y \<le> d \<Longrightarrow> yearFrom y d = yearFrom (y + 1) (d - daysInYear y)"
  "0 \<le> d \<Longrightarrow> d < daysInYear y \<Longrightarrow> yearFrom y d = (y, d)"
  by (subst yearFrom.simps, simp)+

lemma daysInYear_pos: "0 < daysInYear y"
  by (simp add: daysInYear_def)

lemma yearFrom_range:
  assumes "0 \<le> d"
  shows "y \<le> fst (yearFrom y d) \<and> 0 \<le> snd (yearFrom y d)
       \<and> snd (yearFrom y d) < daysInYear (fst (yearFrom y d))"
  using assms
proof (induction y d rule: yearFrom.induct)
  case (1 y d)
  show ?case
  proof (cases "daysInYear y \<le> d")
    case True
    have nn: "\<not> d < 0" using "1.prems" by simp
    have "0 \<le> d - daysInYear y" using True by simp
    from "1.IH"(2)[OF nn True this] show ?thesis
      unfolding yearFrom_step(1)[OF "1.prems" True] by simp
  next
    case False
    then have "d < daysInYear y" by simp
    from yearFrom_step(2)[OF "1.prems" this] "1.prems" this show ?thesis by simp
  qed
qed

lemma yearFrom_mono:
  assumes "0 \<le> d1" and "d1 < d2"
  shows "fst (yearFrom y d1) < fst (yearFrom y d2)
       \<or> fst (yearFrom y d1) = fst (yearFrom y d2) \<and> snd (yearFrom y d1) < snd (yearFrom y d2)"
  using assms
proof (induction y d1 arbitrary: d2 rule: yearFrom.induct)
  case (1 y d1)
  have d2: "0 \<le> d2" using "1.prems" by simp
  show ?case
  proof (cases "daysInYear y \<le> d1")
    case True
    have nn: "\<not> d1 < 0" using "1.prems" by simp
    have t2: "daysInYear y \<le> d2" using True "1.prems"(2) by simp
    have a: "0 \<le> d1 - daysInYear y" "d1 - daysInYear y < d2 - daysInYear y"
      using True "1.prems"(2) by simp_all
    from "1.IH"(2)[OF nn True a] show ?thesis
      unfolding yearFrom_step(1)[OF "1.prems"(1) True] yearFrom_step(1)[OF d2 t2] .
  next
    case False
    then have lt: "d1 < daysInYear y" by simp
    note e1 = yearFrom_step(2)[OF "1.prems"(1) lt]
    show ?thesis
    proof (cases "daysInYear y \<le> d2")
      case True
      have "0 \<le> d2 - daysInYear y" using True by simp
      from yearFrom_range[OF this, of "y + 1"]
      have "y + 1 \<le> fst (yearFrom (y + 1) (d2 - daysInYear y))" by blast
      then show ?thesis
        unfolding e1 yearFrom_step(1)[OF d2 True] by simp
    next
      case False
      then have "d2 < daysInYear y" by simp
      from yearFrom_step(2)[OF d2 this] "1.prems"(2) show ?thesis
        unfolding e1 by simp
    qed
  qed
qed

lemma yearFrom_four_digits:
  assumes "0 \<le> d" and "d < 2932897"
  shows "1970 \<le> fst (yearFrom 1970 d)" and "fst (yearFrom 1970 d) \<le> 9999"
proof -
  from yearFrom_range[OF assms(1), of 1970]
  have r: "1970 \<le> fst (yearFrom 1970 d)" "0 \<le> snd (yearFrom 1970 d)" by blast+
  show "1970 \<le> fst (yearFrom 1970 d)" by (rule r(1))
  have e: "yearFrom 1970 2932897 = (10000, 0)" by code_simp
  from yearFrom_mono[OF assms, of 1970] r(2)
  show "fst (yearFrom 1970 d) \<le> 9999" unfolding e by simp
qed

lemma monthFrom_fst: "m \<le> fst (monthFrom ls m d)"
proof (induction ls arbitrary: m d)
  case Nil
  then show ?case by simp
next
  case (Cons l ls)
  from Cons.IH[of "m + 1" "d - l"] show ?case by simp
qed

lemma monthFrom_mono:
  assumes "d1 < d2"
  shows "fst (monthFrom ls m d1) < fst (monthFrom ls m d2)
       \<or> fst (monthFrom ls m d1) = fst (monthFrom ls m d2)
         \<and> snd (monthFrom ls m d1) < snd (monthFrom ls m d2)"
  using assms
proof (induction ls arbitrary: m d1 d2)
  case Nil
  then show ?case by simp
next
  case (Cons l ls)
  show ?case
  proof (cases "d1 < l")
    case True
    show ?thesis
    proof (cases "d2 < l")
      case True
      with \<open>d1 < l\<close> Cons.prems show ?thesis by simp
    next
      case False
      from monthFrom_fst[of "m + 1" ls "d2 - l"] have "m < fst (monthFrom ls (m + 1) (d2 - l))"
        by simp
      with True False show ?thesis by simp
    qed
  next
    case False
    then have 2: "\<not> d2 < l" using Cons.prems by simp
    have "d1 - l < d2 - l" using Cons.prems by simp
    from Cons.IH[OF this, of "m + 1"] False 2 show ?thesis by simp
  qed
qed

lemma monthFrom_range:
  assumes "0 \<le> d" and "d < sum_list ls" and "\<forall>l \<in> set ls. l \<le> 31"
  shows "fst (monthFrom ls m d) < m + int (length ls) \<and> 0 \<le> snd (monthFrom ls m d)
       \<and> snd (monthFrom ls m d) < 31"
  using assms
proof (induction ls arbitrary: m d)
  case Nil
  then show ?case by simp
next
  case (Cons l ls)
  show ?case
  proof (cases "d < l")
    case True
    with Cons.prems show ?thesis by simp
  next
    case False
    have a: "0 \<le> d - l" "d - l < sum_list ls" "\<forall>l \<in> set ls. l \<le> 31"
      using False Cons.prems by simp_all
    from Cons.IH[OF a, of "m + 1"] False show ?thesis by simp
  qed
qed

lemma monthLengths_facts:
  "sum_list (monthLengths y) = daysInYear y" "length (monthLengths y) = 12"
  "\<forall>l \<in> set (monthLengths y). l \<le> 31"
  by (simp_all add: monthLengths_def daysInYear_def)


lemma dateString_less:
  assumes "0 \<le> y1" and "y2 \<le> 9999" and "0 \<le> m1" and "m2 < 100" and "0 \<le> d1" and "d2 < 100"
    and "y1 < y2 \<or> y1 = y2 \<and> (m1 < m2 \<or> m1 = m2 \<and> d1 < d2)"
  shows "dateString (y1, m1, d1) < dateString (y2, m2, d2)"
proof -
  have ds: "\<And>y m d. 0 \<le> y \<Longrightarrow> y \<le> 9999 \<Longrightarrow>
      dateString (y, m, d) = pad 4 y @ (CHR ''-'' # (pad 2 m @ (CHR ''-'' # pad 2 d)))"
    by (simp add: dateString_def)
  have r: "y1 \<le> 9999" "0 \<le> y2" using assms(1,2,7) by linarith+
  have "pad 4 y1 @ (CHR ''-'' # (pad 2 m1 @ (CHR ''-'' # pad 2 d1)))
      < pad 4 y2 @ (CHR ''-'' # (pad 2 m2 @ (CHR ''-'' # pad 2 d2)))"
  proof (rule seg_less)
    show "length (pad 4 y1) = length (pad 4 y2)" by (simp only: length_pad)
    from assms(7) consider (y) "y1 < y2" | (m) "y1 = y2" "m1 < m2" | (d) "y1 = y2" "m1 = m2" "d1 < d2"
      by blast
    then show "pad 4 y1 < pad 4 y2 \<or> pad 4 y1 = pad 4 y2
        \<and> CHR ''-'' # (pad 2 m1 @ (CHR ''-'' # pad 2 d1)) < CHR ''-'' # (pad 2 m2 @ (CHR ''-'' # pad 2 d2))"
    proof cases
      case y
      have "pad 4 y1 < pad 4 y2"
        by (rule pad_mono) (use assms(1,2) y in simp_all)
      then show ?thesis by blast
    next
      case m
      have "pad 2 m1 < pad 2 m2"
        by (rule pad_mono) (use assms(3,4) m in simp_all)
      then have "pad 2 m1 @ (CHR ''-'' # pad 2 d1) < pad 2 m2 @ (CHR ''-'' # pad 2 d2)"
        by (intro seg_less) (simp_all only: length_pad simp_thms)
      with m(1) show ?thesis by simp
    next
      case d
      have "pad 2 d1 < pad 2 d2"
        by (rule pad_mono) (use assms(5,6) d in simp_all)
      then have "pad 2 m1 @ (CHR ''-'' # pad 2 d1) < pad 2 m2 @ (CHR ''-'' # pad 2 d2)"
        unfolding d(2) by (intro seg_less) simp_all
      with d(1) show ?thesis by simp
    qed
  qed
  then show ?thesis
    unfolding ds[OF assms(1) r(1)] ds[OF r(2) assms(2)] .
qed

lemma length_dateString:
  "0 \<le> y \<Longrightarrow> y \<le> 9999 \<Longrightarrow> length (dateString (y, m, d)) = 10"
  by (simp add: dateString_def length_pad)

lemma timeString_less:
  assumes "0 \<le> a" and "a < b" and "b < 86400000"
  shows "timeString a < timeString b"
proof -
  let ?h = "\<lambda>x::int. x div 3600000" and ?m = "\<lambda>x::int. x div 60000 mod 60"
    and ?s = "\<lambda>x::int. x div 1000 mod 60" and ?u = "\<lambda>x::int. x mod 1000"
  have ts: "\<And>x. timeString x = pad 2 (?h x) @ (CHR '':'' # (pad 2 (?m x)
      @ (CHR '':'' # (pad 2 (?s x) @ (CHR ''.'' # pad 3 (?u x))))))"
    by (simp add: timeString_def)
  have b0: "0 \<le> b" using assms by simp
  have hr: "0 \<le> ?h a" "?h b < 10 ^ 2" "0 \<le> ?m a" "?m b < 10 ^ 2" "0 \<le> ?s a" "?s b < 10 ^ 2"
    "0 \<le> ?u a" "?u b < 10 ^ 3"
    using assms(1,3) by simp_all
  have s1: "(a < b) = (a div 1000 < b div 1000 \<or> a div 1000 = b div 1000 \<and> ?u a < ?u b)"
    by (rule divmod_less) simp
  have s2: "(a div 1000 < b div 1000)
      = (a div 60000 < b div 60000 \<or> a div 60000 = b div 60000 \<and> ?s a < ?s b)"
    using divmod_less[of 60 "a div 1000" "b div 1000"] by (simp add: zdiv_zmult2_eq[symmetric])
  have s3: "(a div 60000 < b div 60000)
      = (?h a < ?h b \<or> ?h a = ?h b \<and> ?m a < ?m b)"
    using divmod_less[of 60 "a div 60000" "b div 60000"] by (simp add: zdiv_zmult2_eq[symmetric])
  have e2: "a div 60000 = b div 60000 \<Longrightarrow> ?h a = ?h b \<and> ?m a = ?m b"
  proof -
    assume e: "a div 60000 = b div 60000"
    have "?h a = a div 60000 div 60" "?h b = b div 60000 div 60"
      by (simp_all add: zdiv_zmult2_eq[symmetric])
    with e show ?thesis by simp
  qed
  have e1: "a div 1000 = b div 1000 \<Longrightarrow> a div 60000 = b div 60000 \<and> ?s a = ?s b"
  proof -
    assume e: "a div 1000 = b div 1000"
    have "a div 60000 = a div 1000 div 60" "b div 60000 = b div 1000 div 60"
      by (simp_all add: zdiv_zmult2_eq[symmetric])
    with e show ?thesis by simp
  qed
  from assms(2) s1 s2 s3 e1 e2 consider
      (h) "?h a < ?h b"
    | (m) "?h a = ?h b" "?m a < ?m b"
    | (s) "?h a = ?h b" "?m a = ?m b" "?s a < ?s b"
    | (u) "?h a = ?h b" "?m a = ?m b" "?s a = ?s b" "?u a < ?u b"
    by blast
  then have "pad 2 (?h a) @ (CHR '':'' # (pad 2 (?m a)
      @ (CHR '':'' # (pad 2 (?s a) @ (CHR ''.'' # pad 3 (?u a))))))
    < pad 2 (?h b) @ (CHR '':'' # (pad 2 (?m b)
      @ (CHR '':'' # (pad 2 (?s b) @ (CHR ''.'' # pad 3 (?u b))))))"
  proof cases
    case h
    have "pad 2 (?h a) < pad 2 (?h b)"
      by (rule pad_mono[OF hr(1) h hr(2)])
    then show ?thesis by (intro seg_less) (simp_all only: length_pad simp_thms)
  next
    case m
    have "pad 2 (?m a) < pad 2 (?m b)"
      by (rule pad_mono[OF hr(3) m(2) hr(4)])
    then have "pad 2 (?m a) @ (CHR '':'' # (pad 2 (?s a) @ (CHR ''.'' # pad 3 (?u a))))
        < pad 2 (?m b) @ (CHR '':'' # (pad 2 (?s b) @ (CHR ''.'' # pad 3 (?u b))))"
      by (intro seg_less) (simp_all only: length_pad simp_thms)
    then show ?thesis unfolding m(1) by (intro seg_less) simp_all
  next
    case s
    have "pad 2 (?s a) < pad 2 (?s b)"
      by (rule pad_mono[OF hr(5) s(3) hr(6)])
    then have "pad 2 (?s a) @ (CHR ''.'' # pad 3 (?u a)) < pad 2 (?s b) @ (CHR ''.'' # pad 3 (?u b))"
      by (intro seg_less) (simp_all only: length_pad simp_thms)
    then have "pad 2 (?m a) @ (CHR '':'' # (pad 2 (?s a) @ (CHR ''.'' # pad 3 (?u a))))
        < pad 2 (?m b) @ (CHR '':'' # (pad 2 (?s b) @ (CHR ''.'' # pad 3 (?u b))))"
      unfolding s(2) by (intro seg_less) simp_all
    then show ?thesis unfolding s(1) by (intro seg_less) simp_all
  next
    case u
    have "pad 3 (?u a) < pad 3 (?u b)"
      by (rule pad_mono[OF hr(7) u(4) hr(8)])
    then have "pad 2 (?s a) @ (CHR ''.'' # pad 3 (?u a)) < pad 2 (?s b) @ (CHR ''.'' # pad 3 (?u b))"
      unfolding u(3) by (intro seg_less) simp_all
    then have "pad 2 (?m a) @ (CHR '':'' # (pad 2 (?s a) @ (CHR ''.'' # pad 3 (?u a))))
        < pad 2 (?m b) @ (CHR '':'' # (pad 2 (?s b) @ (CHR ''.'' # pad 3 (?u b))))"
      unfolding u(2) by (intro seg_less) simp_all
    then show ?thesis unfolding u(1) by (intro seg_less) simp_all
  qed
  then show ?thesis unfolding ts .
qed

lemma civilFromDays_range:
  assumes "0 \<le> d" and "d < 2932897"
  shows "1970 \<le> fst (civilFromDays d)" and "fst (civilFromDays d) \<le> 9999"
    and "1 \<le> fst (snd (civilFromDays d))" and "fst (snd (civilFromDays d)) \<le> 12"
    and "1 \<le> snd (snd (civilFromDays d))" and "snd (snd (civilFromDays d)) \<le> 31"
proof -
  obtain y r where yr: "yearFrom 1970 d = (y, r)" by (cases "yearFrom 1970 d")
  obtain m k where mk: "monthFrom (monthLengths y) 1 r = (m, k)"
    by (cases "monthFrom (monthLengths y) 1 r")
  have c: "civilFromDays d = (y, m, k + 1)"
    by (simp add: civilFromDays_def yr mk)
  from yearFrom_four_digits[OF assms] have y: "1970 \<le> y" "y \<le> 9999" by (simp_all add: yr)
  from yearFrom_range[OF assms(1), of 1970] have r: "0 \<le> r" "r < daysInYear y"
    by (simp_all add: yr)
  have "r < sum_list (monthLengths y)" using r(2) by (simp only: monthLengths_facts)
  from monthFrom_range[OF r(1) this monthLengths_facts(3), of 1] monthFrom_fst[of 1 "monthLengths y" r]
  have m: "1 \<le> m" "m \<le> 12" "0 \<le> k" "k < 31"
    by (simp_all add: mk monthLengths_facts(2))
  from y m show "1970 \<le> fst (civilFromDays d)" "fst (civilFromDays d) \<le> 9999"
    "1 \<le> fst (snd (civilFromDays d))" "fst (snd (civilFromDays d)) \<le> 12"
    "1 \<le> snd (snd (civilFromDays d))" "snd (snd (civilFromDays d)) \<le> 31"
    unfolding c by simp_all
qed

lemma civilFromDays_mono:
  assumes "0 \<le> d1" and "d1 < d2"
  shows "fst (civilFromDays d1) < fst (civilFromDays d2)
       \<or> fst (civilFromDays d1) = fst (civilFromDays d2)
         \<and> (fst (snd (civilFromDays d1)) < fst (snd (civilFromDays d2))
            \<or> fst (snd (civilFromDays d1)) = fst (snd (civilFromDays d2))
              \<and> snd (snd (civilFromDays d1)) < snd (snd (civilFromDays d2)))"
proof -
  obtain y1 r1 where yr1: "yearFrom 1970 d1 = (y1, r1)" by (cases "yearFrom 1970 d1")
  obtain y2 r2 where yr2: "yearFrom 1970 d2 = (y2, r2)" by (cases "yearFrom 1970 d2")
  obtain m1 k1 where mk1: "monthFrom (monthLengths y1) 1 r1 = (m1, k1)"
    by (cases "monthFrom (monthLengths y1) 1 r1")
  obtain m2 k2 where mk2: "monthFrom (monthLengths y2) 1 r2 = (m2, k2)"
    by (cases "monthFrom (monthLengths y2) 1 r2")
  have c1: "civilFromDays d1 = (y1, m1, k1 + 1)"
    by (simp add: civilFromDays_def yr1 mk1)
  have c2: "civilFromDays d2 = (y2, m2, k2 + 1)"
    by (simp add: civilFromDays_def yr2 mk2)
  from yearFrom_mono[OF assms, of 1970] have "y1 < y2 \<or> y1 = y2 \<and> r1 < r2"
    by (simp add: yr1 yr2)
  then show ?thesis
  proof
    assume "y1 < y2"
    then show ?thesis unfolding c1 c2 by simp
  next
    assume e: "y1 = y2 \<and> r1 < r2"
    then have "r1 < r2" by simp
    from monthFrom_mono[OF this, of "monthLengths y2" 1] mk1 mk2 e
    have "m1 < m2 \<or> m1 = m2 \<and> k1 < k2" by simp
    with e show ?thesis unfolding c1 c2 by auto
  qed
qed

lemma toISOString_mono:
  assumes "0 \<le> a" and "a < b" and "b < 253402300800000"
  shows "toISOString a < toISOString b"
proof -
  let ?da = "a div 86400000" and ?db = "b div 86400000"
  let ?ma = "a mod 86400000" and ?mb = "b mod 86400000"
  have da: "0 \<le> ?da" "?da < 2932897" using assms by simp_all
  have db: "0 \<le> ?db" "?db < 2932897" using assms by simp_all
  obtain y1 m1 d1 where c1: "civilFromDays ?da = (y1, m1, d1)" by (cases "civilFromDays ?da")
  obtain y2 m2 d2 where c2: "civilFromDays ?db = (y2, m2, d2)" by (cases "civilFromDays ?db")
  note r1 = civilFromDays_range[OF da, unfolded c1 fst_conv snd_conv]
  note r2 = civilFromDays_range[OF db, unfolded c2 fst_conv snd_conv]
  have l: "length (dateString (y1, m1, d1)) = length (dateString (y2, m2, d2))"
    using r1(1,2) r2(1,2) by (simp add: length_dateString)
  have dm: "(a < b) = (?da < ?db \<or> ?da = ?db \<and> ?ma < ?mb)"
    by (rule divmod_less) simp
  have "dateString (y1, m1, d1) @ (CHR ''T'' # (timeString ?ma @ ''Z''))
      < dateString (y2, m2, d2) @ (CHR ''T'' # (timeString ?mb @ ''Z''))"
  proof (rule seg_less[OF l])
    from assms(2) dm consider (day) "?da < ?db" | (ms) "?da = ?db" "?ma < ?mb" by blast
    then show "dateString (y1, m1, d1) < dateString (y2, m2, d2)
        \<or> dateString (y1, m1, d1) = dateString (y2, m2, d2)
          \<and> CHR ''T'' # (timeString ?ma @ ''Z'') < CHR ''T'' # (timeString ?mb @ ''Z'')"
    proof cases
      case day
      from civilFromDays_mono[OF da(1) day]
      have lex: "y1 < y2 \<or> y1 = y2 \<and> (m1 < m2 \<or> m1 = m2 \<and> d1 < d2)"
        unfolding c1 c2 by simp
      have "dateString (y1, m1, d1) < dateString (y2, m2, d2)"
        by (rule dateString_less) (use r1 r2 lex in simp_all)
      then show ?thesis by blast
    next
      case ms
      have e: "(y1, m1, d1) = (y2, m2, d2)" using c1 c2 ms(1) by simp
      have "timeString ?ma < timeString ?mb"
        by (rule timeString_less) (use ms(2) in simp_all)
      then have "timeString ?ma @ ''Z'' < timeString ?mb @ ''Z''"
        by (intro seg_less) (simp_all add: timeString_def length_pad)
      with e show ?thesis by simp
    qed
  qed
  then show ?thesis
    by (simp add: toISOString_def c1 c2)
qed

lemma toISOString_less_iff:
  assumes "0 \<le> a" and "a < 253402300800000" and "0 \<le> b" and "b < 253402300800000"
  shows "(toISOString a < toISOString b) = (a < b)"
proof (cases "a < b")
  case True
  with toISOString_mono[OF assms(1) True assms(4)] show ?thesis by simp
next
  case False
  then consider "a = b" | "b < a" by linarith
  then have "\<not> toISOString a < toISOString b"
  proof cases
    case 1
    then show ?thesis by simp
  next
    case 2
    from toISOString_mono[OF assms(3) 2 assms(2)] show ?thesis by simp
  qed
  with False show ?thesis by simp
qed

lemma cleanOldRecords_general:
  assumes "dbFault w = None"
    and "\<And>r. r \<in> set (push_history w) \<Longrightarrow>
           (record_timestamp r < toISOString (clock w - daysMs d)) = (sentAt r < clock w - daysMs d)"
  shows "cleanOldRecords w d
      = (Inr (length (filter (\<lambda>r. sentAt r < clock w - daysMs d) (push_history w))),
         dbDone (w\<lparr>push_history := filter (\<lambda>r. \<not> sentAt r < clock w - daysMs d) (push_history w)\<rparr>)
           True ''push_history'')"
proof -
  define c where "c = clock w - daysMs d"
  have cd: "clock w - d * 24 * 60 * 60 * 1000 = c" by (simp add: c_def daysMs_def)
  have f1: "filter (\<lambda>r. record_timestamp r < toISOString c) (push_history w)
          = filter (\<lambda>r. sentAt r < c) (push_history w)"
    by (rule filter_cong) (simp_all add: assms(2) c_def)
  have f2: "filter (\<lambda>r. \<not> record_timestamp r < toISOString c) (push_history w)
          = filter (\<lambda>r. \<not> sentAt r < c) (push_history w)"
    by (rule filter_cong) (simp_all add: assms(2) c_def)
  have "cleanOldRecords w d
      = (Inr (length (filter (\<lambda>r. sentAt r < c) (push_history w))),
         dbDone (w\<lparr>push_history := filter (\<lambda>r. \<not> sentAt r < c) (push_history w)\<rparr>)
           True ''push_history'')"
    unfolding cleanOldRecords_def cd Let_def f1 f2 using assms(1) by simp
  then show ?thesis by (simp only: c_def)
qed

text \<open>
  C8. Let every row of the push history carry the ISO text of the instant \<open>sentAt\<close> at
  which it was written, and let these instants and the cutoff, the instant 30 days before
  now, lie between 1970-01-01 and the end of the year 9999. Then \<open>cleanOldRecords(30)\<close>
  deletes exactly the rows written strictly before the cutoff, keeps every other row
  unchanged and in place, returns the number of rows it deleted, and touches no other
  table.
\<close>

theorem cleanOldRecords_cutoff:
  assumes "dbFault w = None"
    and "\<forall>r \<in> set (push_history w).
           record_timestamp r = toISOString (sentAt r)
         \<and> 0 \<le> sentAt r \<and> sentAt r < 253402300800000"
    and "0 \<le> clock w - daysMs 30" and "clock w - daysMs 30 < 253402300800000"
  shows "fst (cleanOldRecords w 30)
           = Inr (length (filter (\<lambda>r. sentAt r < clock w - daysMs 30) (push_history w)))
       \<and> push_history (snd (cleanOldRecords w 30))
           = filter (\<lambda>r. \<not> sentAt r < clock w - daysMs 30) (push_history w)
       \<and> length (push_history w)
           = length (push_history (snd (cleanOldRecords w 30)))
             + length (filter (\<lambda>r. sentAt r < clock w - daysMs 30) (push_history w))
       \<and> subscriptions (snd (cleanOldRecords w 30)) = subscriptions w
       \<and> price_alerts (snd (cleanOldRecords w 30)) = price_alerts w"
proof -
  have eq: "\<And>r. r \<in> set (push_history w) \<Longrightarrow>
      (record_timestamp r < toISOString (clock w - daysMs 30)) = (sentAt r < clock w - daysMs 30)"
  proof -
    fix r assume "r \<in> set (push_history w)"
    with assms(2) have r: "record_timestamp r = toISOString (sentAt r)"
      "0 \<le> sentAt r" "sentAt r < 253402300800000" by blast+
    show "(record_timestamp r < toISOString (clock w - daysMs 30)) = (sentAt r < clock w - daysMs 30)"
      unfolding r(1) by (rule toISOString_less_iff[OF r(2,3) assms(3,4)])
  qed
  note c = cleanOldRecords_general[of w 30 sentAt, OF assms(1) eq]
  have l: "length (push_history w)
      = length (filter (\<lambda>r. \<not> sentAt r < clock w - daysMs 30) (push_history w))
        + length (filter (\<lambda>r. sentAt r < clock w - daysMs 30) (push_history w))"
    using sum_length_filter_compl[of "\<lambda>r. sentAt r < clock w - daysMs 30" "push_history w"]
    by simp
  have r1: "fst (cleanOldRecords w 30)
      = Inr (length (filter (\<lambda>r. sentAt r < clock w - daysMs 30) (push_history w)))"
    by (simp only: c fst_conv)
  have r2: "snd (cleanOldRecords w 30)
      = dbDone (w\<lparr>push_history := filter (\<lambda>r. \<not> sentAt r < clock w - daysMs 30) (push_history w)\<rparr>)
           True ''push_history''"
    by (simp only: c snd_conv)
  have r3: "push_history (snd (cleanOldRecords w 30))
      = filter (\<lambda>r. \<not> sentAt r < clock w - daysMs 30) (push_history w)"
    "subscriptions (snd (cleanOldRecords w 30)) = subscriptions w"
    "price_alerts (snd (cleanOldRecords w 30)) = price_alerts w"
    unfolding r2 by (simp_all add: dbDone_def logTo_def)
  from r1 r3 l show ?thesis by (simp only: simp_thms)
qed

theorem cleanOldRecords_cutoff_witness:
  "dbFault (quietWorld\<lparr>push_history := [pushed ''a'' 1791022200122, pushed ''b'' 1791022200123,
                                        pushed ''c'' 1793614200000]\<rparr>) = None
   \<and> map record_timestamp [pushed ''a'' 1791022200122, pushed ''b'' 1791022200123,
                             pushed ''c'' 1793614200000]
     = [''2026-10-03T10:10:00.122Z'', ''2026-10-03T10:10:00.123Z'', ''2026-11-02T10:10:00.000Z'']
   \<and> toISOString (clock quietWorld - daysMs 30) = ''2026-10-03T10:10:00.123Z''
   \<and> fst (cleanOldRecords (quietWorld\<lparr>push_history := [pushed ''a'' 1791022200122,
            pushed ''b'' 1791022200123, pushed ''c'' 1793614200000]\<rparr>) 30) = Inr 1
   \<and> push_history (snd (cleanOldRecords (quietWorld\<lparr>push_history := [pushed ''a'' 1791022200122,
            pushed ''b'' 1791022200123, pushed ''c'' 1793614200000]\<rparr>) 30))
     = [pushed ''b'' 1791022200123, pushed ''c'' 1793614200000]"
proof -
  let ?w = "quietWorld\<lparr>push_history := [pushed ''a'' 1791022200122, pushed ''b'' 1791022200123,
                                        pushed ''c'' 1793614200000]\<rparr>"
  let ?at = "\<lambda>r. if record_id r = ''a'' then 1791022200122
                  else if record_id r = ''b'' then 1791022200123 else (1793614200000::int)"
  have c: "clock ?w - daysMs 30 = 1791022200123"
    by (simp add: quietWorld_def daysMs_def)
  have c': "clock quietWorld - daysMs 30 = 1791022200123"
    by (simp add: quietWorld_def daysMs_def)
  have iso: "toISOString 1791022200122 = ''2026-10-03T10:10:00.122Z''"
    "toISOString 1791022200123 = ''2026-10-03T10:10:00.123Z''"
    "toISOString 1793614200000 = ''2026-11-02T10:10:00.000Z''"
    by code_simp+
  have ts: "map record_timestamp [pushed ''a'' 1791022200122, pushed ''b'' 1791022200123,
                             pushed ''c'' 1793614200000]
     = [''2026-10-03T10:10:00.122Z'', ''2026-10-03T10:10:00.123Z'', ''2026-11-02T10:10:00.000Z'']"
    by (simp add: pushed_def iso)
  have cs: "toISOString (clock quietWorld - daysMs 30) = ''2026-10-03T10:10:00.123Z''"
    unfolding c' by (rule iso(2))
  have 1: "dbFault ?w = None" by (simp add: dbFault_def quietWorld_def)
  have 2: "\<forall>r \<in> set (push_history ?w).
           record_timestamp r = toISOString (?at r)
         \<and> 0 \<le> ?at r \<and> ?at r < 253402300800000"
    by (simp add: pushed_def)
  have 3: "0 \<le> clock ?w - daysMs 30" "clock ?w - daysMs 30 < 253402300800000"
    unfolding c by simp_all
  have 4: "filter (\<lambda>r. ?at r < clock ?w - daysMs 30) (push_history ?w) = [pushed ''a'' 1791022200122]"
    unfolding c by (simp add: pushed_def)
  have 5: "filter (\<lambda>r. \<not> ?at r < clock ?w - daysMs 30) (push_history ?w)
      = [pushed ''b'' 1791022200123, pushed ''c'' 1793614200000]"
    unfolding c by (simp add: pushed_def)
  from cleanOldRecords_cutoff[of ?w ?at, OF 1 2 3] 1 ts cs show ?thesis
    unfolding 4 5 by simp
qed


section \<open>Witnesses for the scheduler\<close>

theorem executeTask_skip_at_ceiling_witness:
  "max_concurrent_jobs busyScheduler \<le> int (length (runningTasks busyScheduler))
   \<and> executeTask busyScheduler (sampleJob failingHandler 3) =
     (\<lparr>task_id = id' (sampleJob failingHandler 3), task_success = False,
       task_error = Some ''Max concurrent jobs reached''\<rparr>,
      busyScheduler\<lparr>world := (world busyScheduler)\<lparr>logged := logged (world busyScheduler) @
           [(LogWarn, ''Max concurrent jobs reached, skipping task'',
             id' (sampleJob failingHandler 3))]\<rparr>\<rparr>)"
proof -
  have h: "max_concurrent_jobs busyScheduler \<le> int (length (runningTasks busyScheduler))"
    by (simp add: busyScheduler_def)
  from executeTask_skip_at_ceiling[OF h, of "sampleJob failingHandler 3"] h show ?thesis
    by blast
qed


section \<open>Automatic pause of a failing job\<close>

lemma setDelete_setAdd: "setDelete k (setAdd k xs) = setDelete k xs"
  by (simp add: setDelete_def setAdd_def)

lemma length_setDelete: "length (setDelete k xs) \<le> length xs"
  by (simp add: setDelete_def)

lemma fire_failure_explicit:
  assumes "tasks s k = Some \<lparr>started = True, job = jb\<rparr>" and "id' jb = k"
    and "handler jb (logTo (world s) LogInfo ''Executing task'' k) = (Inl e, w1)"
    and "int (length (runningTasks s)) < max_concurrent_jobs s"
  shows "fire s k =
      s\<lparr>tasks := (tasks s)(k \<mapsto>
              \<lparr>started = (error_count jb + 1 < max_retries jb),
               job = jb\<lparr>error_count := error_count jb + 1\<rparr>\<rparr>),
        runningTasks := setDelete k (runningTasks s),
        world := (if error_count jb + 1 < max_retries jb
                  then logTo w1 LogError ''Scheduled Task'' (name jb)
                  else logTo (logTo (logTo w1 LogError ''Scheduled Task'' (name jb))
                         LogError ''Task disabled due to too many errors'' k)
                       LogInfo ''Task paused'' k)\<rparr>"
  using assms
  by (simp add: fire_def executeTask_def Let_def bumpErrorCount_def logS_def pauseTask_def
      setDelete_setAdd)

lemma fire_failure:
  assumes "tasks s k = Some t" and "started t" and "id' (job t) = k"
    and "handlerFails s k"
    and "int (length (runningTasks s)) < max_concurrent_jobs s"
  shows "\<exists>w'. fire s k =
      s\<lparr>tasks := (tasks s)(k \<mapsto>
              \<lparr>started = (error_count (job t) + 1 < max_retries (job t)),
               job = (job t)\<lparr>error_count := error_count (job t) + 1\<rparr>\<rparr>),
        runningTasks := setDelete k (runningTasks s),
        world := w'\<rparr>"
proof -
  let ?W = "logTo (world s) LogInfo ''Executing task'' k"
  obtain r w1 where h: "handler (job t) ?W = (r, w1)" by (cases "handler (job t) ?W")
  from assms(1,4) have "isl (fst (handler (job t) ?W))" by (simp add: handlerFails_def)
  with h obtain e where r: "r = Inl e"
    by (auto simp: isl_def)
  obtain jb where t: "t = \<lparr>started = True, job = jb\<rparr>" using assms(2) by (cases t) simp
  have jb: "job t = jb" by (simp add: t)
  have 1: "tasks s k = Some \<lparr>started = True, job = jb\<rparr>"
    using assms(1) unfolding t .
  have 2: "id' jb = k" using assms(3) unfolding jb .
  have 3: "handler jb ?W = (Inl e, w1)" using h r unfolding jb by simp
  from fire_failure_explicit[OF 1 2 3 assms(5)] show ?thesis
    unfolding jb by blast
qed

lemma fire_failure_entry:
  assumes "tasks s k = Some t" and "started t" and "id' (job t) = k"
    and "handlerFails s k"
    and "int (length (runningTasks s)) < max_concurrent_jobs s"
  shows "tasks (fire s k) k = Some \<lparr>started = (error_count (job t) + 1 < max_retries (job t)),
               job = (job t)\<lparr>error_count := error_count (job t) + 1\<rparr>\<rparr>"
    and "int (length (runningTasks (fire s k))) < max_concurrent_jobs (fire s k)"
proof -
  from fire_failure[OF assms] obtain w' where
    f: "fire s k = s\<lparr>tasks := (tasks s)(k \<mapsto>
              \<lparr>started = (error_count (job t) + 1 < max_retries (job t)),
               job = (job t)\<lparr>error_count := error_count (job t) + 1\<rparr>\<rparr>),
        runningTasks := setDelete k (runningTasks s), world := w'\<rparr>" by blast
  show "tasks (fire s k) k = Some \<lparr>started = (error_count (job t) + 1 < max_retries (job t)),
               job = (job t)\<lparr>error_count := error_count (job t) + 1\<rparr>\<rparr>"
    unfolding f by simp
  show "int (length (runningTasks (fire s k))) < max_concurrent_jobs (fire s k)"
    unfolding f using assms(5) length_setDelete[of k "runningTasks s"] by simp
qed

lemma fire_stopped: "\<not> isStarted s k \<Longrightarrow> fire s k = s"
  by (simp add: isStarted_def fire_def split: option.splits)

lemma fires_stopped: "\<not> isStarted s k \<Longrightarrow> fires m s k = s"
  by (induction m) (simp_all add: fire_stopped)

lemma fires_add: "fires (a + b) s k = fires b (fires a s k) k"
  by (induction a arbitrary: s) simp_all

lemma fires_Suc_right: "fires (Suc n) s k = fire (fires n s k) k"
  by (induction n arbitrary: s) simp_all

lemma fires_running:
  assumes "tasks s k = Some t" and "started t" and "id' (job t) = k"
    and "\<forall>j < i. handlerFails (fires j s k) k"
    and "int (length (runningTasks s)) < max_concurrent_jobs s"
    and "i = 0 \<or> error_count (job t) + int i < max_retries (job t)"
  shows "\<exists>t'. tasks (fires i s k) k = Some t' \<and> started t'
           \<and> job t' = (job t)\<lparr>error_count := error_count (job t) + int i\<rparr>
           \<and> int (length (runningTasks (fires i s k))) < max_concurrent_jobs (fires i s k)"
  using assms
proof (induction i arbitrary: s t)
  case 0
  then show ?case by simp
next
  case (Suc i)
  let ?t1 = "\<lparr>started = (error_count (job t) + 1 < max_retries (job t)),
               job = (job t)\<lparr>error_count := error_count (job t) + 1\<rparr>\<rparr>"
  from Suc.prems(4) have h0: "handlerFails s k" by fastforce
  note e = fire_failure_entry[OF Suc.prems(1-3) h0 Suc.prems(5)]
  from Suc.prems(6) have lt: "error_count (job t) + int (Suc i) < max_retries (job t)" by simp
  have 2: "started ?t1" using lt by simp
  have 3: "id' (job ?t1) = k" using Suc.prems(3) by simp
  have 4: "\<forall>j < i. handlerFails (fires j (fire s k) k) k"
  proof (intro allI impI)
    fix j assume "j < i"
    then have "Suc j < Suc i" by simp
    with Suc.prems(4) have "handlerFails (fires (Suc j) s k) k" by blast
    then show "handlerFails (fires j (fire s k) k) k" by simp
  qed
  have 6: "i = 0 \<or> error_count (job ?t1) + int i < max_retries (job ?t1)"
    using lt by simp
  from Suc.IH[OF e(1) 2 3 4 e(2) 6] obtain t' where
    t': "tasks (fires i (fire s k) k) k = Some t'" "started t'"
    "job t' = (job ?t1)\<lparr>error_count := error_count (job ?t1) + int i\<rparr>"
    "int (length (runningTasks (fires i (fire s k) k))) < max_concurrent_jobs (fires i (fire s k) k)"
    by blast
  have "error_count (job t) + 1 + int i = error_count (job t) + int (Suc i)" by simp
  with t'(3) have "job t' = (job t)\<lparr>error_count := error_count (job t) + int (Suc i)\<rparr>"
    by simp
  with t'(1,2,4) show ?case by simp
qed

lemma fire_keeps_handler:
  assumes "tasks s k = Some t" and "id' (job t) = k"
  shows "\<exists>t'. tasks (fire s k) k = Some t' \<and> handler (job t') = handler (job t)
            \<and> id' (job t') = k"
proof (cases "started t \<and> int (length (runningTasks s)) < max_concurrent_jobs s")
  case False
  then show ?thesis
    using assms by (auto simp: fire_def executeTask_def logS_def)
next
  case True
  let ?W = "logTo (world s) LogInfo ''Executing task'' k"
  obtain r w1 where h: "handler (job t) ?W = (r, w1)" by (cases "handler (job t) ?W")
  show ?thesis
  proof (cases r)
    case (Inr u)
    then show ?thesis
      using assms True h by (simp add: fire_def executeTask_def Let_def logS_def)
  next
    case (Inl e)
    then show ?thesis
      using assms True h
      by (simp add: fire_def executeTask_def Let_def logS_def bumpErrorCount_def pauseTask_def)
  qed
qed

lemma always_failing_handlerFails:
  assumes "tasks s k = Some t" and "id' (job t) = k" and "\<forall>w. isl (fst (handler (job t) w))"
  shows "handlerFails (fires i s k) k"
  using assms
proof (induction i arbitrary: s t)
  case 0
  then show ?case by (simp add: handlerFails_def)
next
  case (Suc i)
  from fire_keeps_handler[OF Suc.prems(1,2)] obtain t' where
    t': "tasks (fire s k) k = Some t'" "handler (job t') = handler (job t)" "id' (job t') = k"
    by blast
  from Suc.prems(3) t'(2) have "\<forall>w. isl (fst (handler (job t') w))" by simp
  from Suc.IH[OF t'(1,3) this] show ?case by simp
qed

lemma fire_success_explicit:
  assumes "tasks s k = Some \<lparr>started = True, job = jb\<rparr>" and "id' jb = k"
    and "handler jb (logTo (world s) LogInfo ''Executing task'' k) = (Inr u, w1)"
    and "int (length (runningTasks s)) < max_concurrent_jobs s"
  shows "fire s k =
      s\<lparr>runningTasks := setDelete k (runningTasks s),
        world := logTo w1 LogInfo ''Scheduled Task'' (name jb)\<rparr>"
  using assms
  by (simp add: fire_def executeTask_def Let_def logS_def setDelete_setAdd)

lemma fires_registered:
  assumes "tasks s k = Some t" and "id' (job t) = k"
  shows "\<exists>t'. tasks (fires i s k) k = Some t' \<and> id' (job t') = k"
  using assms
proof (induction i arbitrary: s t)
  case 0
  then show ?case by simp
next
  case (Suc i)
  from fire_keeps_handler[OF Suc.prems] obtain t' where
    t': "tasks (fire s k) k = Some t'" "id' (job t') = k"
    by blast
  from Suc.IH[OF t'] show ?case by simp
qed

lemma fire_outcome:
  assumes "tasks s k = Some t" and "started t" and "id' (job t) = k"
    and "int (length (runningTasks s)) < max_concurrent_jobs s"
  shows "tasks (fire s k) k =
           Some (if handlerFails s k
                 then \<lparr>started = (error_count (job t) + 1 < max_retries (job t)),
                       job = (job t)\<lparr>error_count := error_count (job t) + 1\<rparr>\<rparr>
                 else t)"
    and "logged (world (fire s k)) =
           logged (snd (handler (job t) (logTo (world s) LogInfo ''Executing task'' k)))
           @ (if handlerFails s k
              then (LogError, ''Scheduled Task'', name (job t))
                   # (if error_count (job t) + 1 < max_retries (job t) then []
                      else [(LogError, ''Task disabled due to too many errors'', k),
                            (LogInfo, ''Task paused'', k)])
              else [(LogInfo, ''Scheduled Task'', name (job t))])"
proof -
  let ?W = "logTo (world s) LogInfo ''Executing task'' k"
  obtain r w1 where h: "handler (job t) ?W = (r, w1)" by (cases "handler (job t) ?W")
  obtain jb where t: "t = \<lparr>started = True, job = jb\<rparr>" using assms(2) by (cases t) simp
  have jb: "job t = jb" by (simp add: t)
  have 1: "tasks s k = Some \<lparr>started = True, job = jb\<rparr>"
    using assms(1) unfolding t .
  have 2: "id' jb = k" using assms(3) unfolding jb .
  have hf: "handlerFails s k = isl r"
    using assms(1) h by (simp add: handlerFails_def)
  have both: "tasks (fire s k) k =
           Some (if handlerFails s k
                 then \<lparr>started = (error_count (job t) + 1 < max_retries (job t)),
                       job = (job t)\<lparr>error_count := error_count (job t) + 1\<rparr>\<rparr>
                 else t)
     \<and> logged (world (fire s k)) =
           logged (snd (handler (job t) ?W))
           @ (if handlerFails s k
              then (LogError, ''Scheduled Task'', name (job t))
                   # (if error_count (job t) + 1 < max_retries (job t) then []
                      else [(LogError, ''Task disabled due to too many errors'', k),
                            (LogInfo, ''Task paused'', k)])
              else [(LogInfo, ''Scheduled Task'', name (job t))])"
  proof (cases r)
    case (Inl e)
    have 3: "handler jb ?W = (Inl e, w1)" using h Inl unfolding jb by simp
    have f: "handlerFails s k" using hf Inl by simp
    show ?thesis
      unfolding fire_failure_explicit[OF 1 2 3 assms(4)] jb
      using f 3 by (simp add: logTo_def t)
  next
    case (Inr u)
    have 3: "handler jb ?W = (Inr u, w1)" using h Inr unfolding jb by simp
    have f: "\<not> handlerFails s k" using hf Inr by simp
    show ?thesis
      unfolding fire_success_explicit[OF 1 2 3 assms(4)] jb
      using f 3 1 by (simp add: logTo_def t)
  qed
  from both show "tasks (fire s k) k =
           Some (if handlerFails s k
                 then \<lparr>started = (error_count (job t) + 1 < max_retries (job t)),
                       job = (job t)\<lparr>error_count := error_count (job t) + 1\<rparr>\<rparr>
                 else t)" by blast
  from both show "logged (world (fire s k)) =
           logged (snd (handler (job t) (logTo (world s) LogInfo ''Executing task'' k)))
           @ (if handlerFails s k
              then (LogError, ''Scheduled Task'', name (job t))
                   # (if error_count (job t) + 1 < max_retries (job t) then []
                      else [(LogError, ''Task disabled due to too many errors'', k),
                            (LogInfo, ''Task paused'', k)])
              else [(LogInfo, ''Scheduled Task'', name (job t))])" by blast
qed

lemma fires_pause_point:
  assumes "tasks s k = Some t" and "started t" and "id' (job t) = k"
    and "\<forall>j < i. handlerFails (fires j s k) k"
    and "int (length (runningTasks s)) < max_concurrent_jobs s"
  shows "isStarted (fires i s k) k = (i = 0 \<or> error_count (job t) + int i < max_retries (job t))"
proof (cases "i = 0 \<or> error_count (job t) + int i < max_retries (job t)")
  case True
  from fires_running[OF assms True] show ?thesis
    unfolding isStarted_def using True by (auto simp del: fires.simps)
next
  case False
  let ?n = "max_retries (job t)" and ?e = "error_count (job t)"
  define q where "q = nat (?n - 1 - ?e)"
  define sq where "sq = fires q s k"
  have qn: "Suc q \<le> i" using False by (auto simp: q_def)
  have q0: "q = 0 \<or> ?e + int q < ?n" by (auto simp: q_def)
  have hq: "\<forall>j < q. handlerFails (fires j s k) k"
    using assms(4) qn by auto
  from fires_running[OF assms(1-3) hq assms(5) q0]
  obtain tq where tq: "tasks sq k = Some tq" "started tq"
    "job tq = (job t)\<lparr>error_count := ?e + int q\<rparr>"
    "int (length (runningTasks sq)) < max_concurrent_jobs sq"
    unfolding sq_def by blast
  have brk: "(error_count (job tq) + 1 < max_retries (job tq)) = False"
    by (simp add: tq(3) q_def)
  have idq: "id' (job tq) = k"
    using assms(3) by (simp add: tq(3))
  have fq: "handlerFails sq k"
    using assms(4) qn unfolding sq_def by auto
  note e = fire_failure_entry(1)[OF tq(1,2) idq fq tq(4), unfolded brk]
  have fq1: "fires (Suc q) s k = fire sq k"
    unfolding sq_def by (rule fires_Suc_right)
  have stopped: "\<not> isStarted (fires (Suc q) s k) k"
    unfolding fq1 isStarted_def e by simp
  have "i = Suc q + (i - Suc q)" using qn by simp
  then have "fires i s k = fires (Suc q + (i - Suc q)) s k"
    by simp
  also have "\<dots> = fires (i - Suc q) (fires (Suc q) s k) k"
    by (rule fires_add)
  also have "\<dots> = fires (Suc q) s k"
    by (rule fires_stopped[OF stopped])
  finally have "fires i s k = fires (Suc q) s k" .
  with stopped False show ?thesis by simp
qed

lemma resumeTask_entry:
  "tasks (resumeTask s k) k = map_option (\<lambda>t. t\<lparr>started := True\<rparr>) (tasks s k)"
  by (simp add: resumeTask_def logS_def split: option.splits)

text \<open>
  C1, as the code has it. A job with \<open>max_retries = 3\<close> and no earlier failure is
  registered; its handler fails on the first firing, succeeds on the second and fails
  from the third on. The successful execution does not reset \<open>error_count\<close>, so the job
  is paused upon the fourth firing, which is the second of the consecutive failures and
  brings \<open>error_count\<close> to 3; the third consecutive failure is never executed. After
  \<open>resumeTask\<close> a single further failure pauses the job again, with \<open>error_count = 4\<close>.
\<close>

theorem cumulative_error_count_counterexample:
  "max_retries (sampleJob pingHandler 3) = 3
   \<and> error_count (sampleJob pingHandler 3) = 0
   \<and> handlerFails (fires 0 (sampleScheduler flakyWorld (sampleJob pingHandler 3))
        ''trending_coins_hourly'') ''trending_coins_hourly''
   \<and> \<not> handlerFails (fires 1 (sampleScheduler flakyWorld (sampleJob pingHandler 3))
        ''trending_coins_hourly'') ''trending_coins_hourly''
   \<and> handlerFails (fires 2 (sampleScheduler flakyWorld (sampleJob pingHandler 3))
        ''trending_coins_hourly'') ''trending_coins_hourly''
   \<and> handlerFails (fires 3 (sampleScheduler flakyWorld (sampleJob pingHandler 3))
        ''trending_coins_hourly'') ''trending_coins_hourly''
   \<and> handlerFails (fires 4 (sampleScheduler flakyWorld (sampleJob pingHandler 3))
        ''trending_coins_hourly'') ''trending_coins_hourly''
   \<and> isStarted (fires 3 (sampleScheduler flakyWorld (sampleJob pingHandler 3))
        ''trending_coins_hourly'') ''trending_coins_hourly''
   \<and> \<not> isStarted (fires 4 (sampleScheduler flakyWorld (sampleJob pingHandler 3))
        ''trending_coins_hourly'') ''trending_coins_hourly''
   \<and> map_option (error_count \<circ> job)
        (tasks (fires 4 (sampleScheduler flakyWorld (sampleJob pingHandler 3))
           ''trending_coins_hourly'') ''trending_coins_hourly'') = Some 3
   \<and> \<not> isStarted (fire (resumeTask (fires 4 (sampleScheduler flakyWorld (sampleJob pingHandler 3))
        ''trending_coins_hourly'') ''trending_coins_hourly'') ''trending_coins_hourly'')
        ''trending_coins_hourly''
   \<and> map_option (error_count \<circ> job)
        (tasks (fire (resumeTask (fires 4 (sampleScheduler flakyWorld (sampleJob pingHandler 3))
           ''trending_coins_hourly'') ''trending_coins_hourly'') ''trending_coins_hourly'')
           ''trending_coins_hourly'') = Some 4"
  by code_simp


text \<open>
  C1, amended. A job is registered under its id with its timer started and the number of
  running jobs is below the ceiling. Each failed execution adds one to the job's
  \<open>error_count\<close>; a successful execution leaves the timer and the counter as they are,
  and so does \<open>resumeTask\<close> but for starting the timer. The job is paused upon the failed
  execution that brings \<open>error_count\<close> to \<open>max_retries\<close> or above, once for that
  execution (the log of the execution holds one pause), and not before: while the handler
  fails on consecutive firings, the timer is started after \<open>i\<close> of them exactly when
  \<open>i = 0\<close> or \<open>error_count + i < max_retries\<close>. So a job with no earlier failure is
  paused exactly upon the \<open>max_retries\<close>-th consecutive failure, and a job with earlier
  failures sooner. Once the timer is stopped every further firing leaves the whole state
  as it is, so the handler is not invoked again, until \<open>resumeTask\<close> starts the timer.
\<close>

theorem auto_pause_on_cumulative_errors:
  assumes "tasks s k = Some t" and "started t" and "id' (job t) = k"
    and "int (length (runningTasks s)) < max_concurrent_jobs s"
  shows "tasks (fire s k) k =
           Some (if handlerFails s k
                 then \<lparr>started = (error_count (job t) + 1 < max_retries (job t)),
                       job = (job t)\<lparr>error_count := error_count (job t) + 1\<rparr>\<rparr>
                 else t)
       \<and> logged (world (fire s k)) =
           logged (snd (handler (job t) (logTo (world s) LogInfo ''Executing task'' k)))
           @ (if handlerFails s k
              then (LogError, ''Scheduled Task'', name (job t))
                   # (if error_count (job t) + 1 < max_retries (job t) then []
                      else [(LogError, ''Task disabled due to too many errors'', k),
                            (LogInfo, ''Task paused'', k)])
              else [(LogInfo, ''Scheduled Task'', name (job t))])
       \<and> (\<forall>i. (\<forall>j < i. handlerFails (fires j s k) k) \<longrightarrow>
             isStarted (fires i s k) k
               = (i = 0 \<or> error_count (job t) + int i < max_retries (job t)))
       \<and> (\<forall>i m. \<not> isStarted (fires i s k) k \<longrightarrow> fires (i + m) s k = fires i s k)
       \<and> (\<forall>i. isStarted (resumeTask (fires i s k) k) k
             \<and> tasks (resumeTask (fires i s k) k) k
                 = map_option (\<lambda>t'. t'\<lparr>started := True\<rparr>) (tasks (fires i s k) k))"
proof -
  note o = fire_outcome[OF assms]
  have c3: "\<forall>i. (\<forall>j < i. handlerFails (fires j s k) k) \<longrightarrow>
             isStarted (fires i s k) k
               = (i = 0 \<or> error_count (job t) + int i < max_retries (job t))"
    using fires_pause_point[OF assms(1-3) _ assms(4)] by blast
  have c4: "\<forall>i m. \<not> isStarted (fires i s k) k \<longrightarrow> fires (i + m) s k = fires i s k"
  proof (intro allI impI)
    fix i m assume st: "\<not> isStarted (fires i s k) k"
    have "fires (i + m) s k = fires m (fires i s k) k" by (rule fires_add)
    also have "\<dots> = fires i s k" by (rule fires_stopped[OF st])
    finally show "fires (i + m) s k = fires i s k" .
  qed
  have c5: "\<forall>i. isStarted (resumeTask (fires i s k) k) k
             \<and> tasks (resumeTask (fires i s k) k) k
                 = map_option (\<lambda>t'. t'\<lparr>started := True\<rparr>) (tasks (fires i s k) k)"
  proof
    fix i
    from fires_registered[OF assms(1,3), of i] obtain t' where
      t': "tasks (fires i s k) k = Some t'" by blast
    show "isStarted (resumeTask (fires i s k) k) k
             \<and> tasks (resumeTask (fires i s k) k) k
                 = map_option (\<lambda>t'. t'\<lparr>started := True\<rparr>) (tasks (fires i s k) k)"
      unfolding isStarted_def resumeTask_entry t' by simp
  qed
  from o c3 c4 c5 show ?thesis by blast
qed

theorem auto_pause_on_cumulative_errors_witness:
  "tasks (sampleScheduler quietWorld ((sampleJob failingHandler 3)\<lparr>error_count := 1\<rparr>))
       ''trending_coins_hourly''
     = Some \<lparr>started = True, job = (sampleJob failingHandler 3)\<lparr>error_count := 1\<rparr>\<rparr>
   \<and> (\<forall>w. isl (fst (failingHandler w)))
   \<and> tasks (fire (sampleScheduler quietWorld ((sampleJob failingHandler 3)\<lparr>error_count := 1\<rparr>))
        ''trending_coins_hourly'') ''trending_coins_hourly''
     = Some \<lparr>started = True, job = (sampleJob failingHandler 3)\<lparr>error_count := 2\<rparr>\<rparr>
   \<and> isStarted (fires 1 (sampleScheduler quietWorld ((sampleJob failingHandler 3)\<lparr>error_count := 1\<rparr>))
        ''trending_coins_hourly'') ''trending_coins_hourly''
   \<and> \<not> isStarted (fires 2 (sampleScheduler quietWorld ((sampleJob failingHandler 3)\<lparr>error_count := 1\<rparr>))
        ''trending_coins_hourly'') ''trending_coins_hourly''
   \<and> fires (2 + 4) (sampleScheduler quietWorld ((sampleJob failingHandler 3)\<lparr>error_count := 1\<rparr>))
        ''trending_coins_hourly''
       = fires 2 (sampleScheduler quietWorld ((sampleJob failingHandler 3)\<lparr>error_count := 1\<rparr>))
           ''trending_coins_hourly''
   \<and> isStarted (resumeTask
        (fires 2 (sampleScheduler quietWorld ((sampleJob failingHandler 3)\<lparr>error_count := 1\<rparr>))
           ''trending_coins_hourly'') ''trending_coins_hourly'') ''trending_coins_hourly''"
proof -
  let ?j = "(sampleJob failingHandler 3)\<lparr>error_count := 1\<rparr>"
  let ?s = "sampleScheduler quietWorld ?j"
  let ?k = "''trending_coins_hourly''"
  let ?t = "\<lparr>started = True, job = ?j\<rparr>"
  have 1: "tasks ?s ?k = Some ?t"
    by (simp add: sampleScheduler_def scheduleTask_def sampleJob_def logS_def Let_def)
  have 2: "started ?t" by simp
  have 3: "id' (job ?t) = ?k" by (simp add: sampleJob_def)
  have af: "\<forall>w. isl (fst (handler (job ?t) w))"
    by (simp add: sampleJob_def failingHandler_def)
  have hf: "\<And>i. handlerFails (fires i ?s ?k) ?k"
    by (rule always_failing_handlerFails[OF 1 3 af])
  have h0: "handlerFails ?s ?k" using hf[of 0] by simp
  have fh: "\<forall>w. isl (fst (failingHandler w))" by (simp add: failingHandler_def)
  have 4: "int (length (runningTasks ?s)) < max_concurrent_jobs ?s"
    by (simp add: sampleScheduler_def scheduleTask_def logS_def Let_def)
  have n: "max_retries (job ?t) = 3" by (simp add: sampleJob_def)
  have e: "error_count (job ?t) = 1" by simp
  have j2: "(job ?t)\<lparr>error_count := 1 + 1\<rparr> = (sampleJob failingHandler 3)\<lparr>error_count := 2\<rparr>"
    by simp
  note ap = auto_pause_on_cumulative_errors[OF 1 2 3 4]
  from ap have a: "tasks (fire ?s ?k) ?k =
           Some (if handlerFails ?s ?k
                 then \<lparr>started = (error_count (job ?t) + 1 < max_retries (job ?t)),
                       job = (job ?t)\<lparr>error_count := error_count (job ?t) + 1\<rparr>\<rparr>
                 else ?t)" by blast
  have a': "tasks (fire ?s ?k) ?k
     = Some \<lparr>started = True, job = (sampleJob failingHandler 3)\<lparr>error_count := 2\<rparr>\<rparr>"
    using a h0 unfolding n e j2 by simp
  from ap have p: "\<And>i. (\<forall>j < i. handlerFails (fires j ?s ?k) ?k) \<Longrightarrow>
             isStarted (fires i ?s ?k) ?k
               = (i = 0 \<or> error_count (job ?t) + int i < max_retries (job ?t))" by blast
  have "isStarted (fires 1 ?s ?k) ?k
      = (1 = (0::nat) \<or> error_count (job ?t) + int 1 < max_retries (job ?t))"
    by (rule p) (use hf in blast)
  then have b: "isStarted (fires 1 ?s ?k) ?k"
    unfolding n e by simp
  have "isStarted (fires 2 ?s ?k) ?k
      = (2 = (0::nat) \<or> error_count (job ?t) + int 2 < max_retries (job ?t))"
    by (rule p) (use hf in blast)
  then have c: "\<not> isStarted (fires 2 ?s ?k) ?k"
    unfolding n e by simp
  from ap c have d: "fires (2 + 4) ?s ?k = fires 2 ?s ?k" by blast
  from ap have r: "isStarted (resumeTask (fires 2 ?s ?k) ?k) ?k" by blast
  from 1 fh a' b c d r show ?thesis by blast
qed

section \<open>Properties of the alert evaluator\<close>

lemma triggerAlert_frame:
  "db_faults (snd (triggerAlert w i)) = db_faults w"
  "channel_faults (snd (triggerAlert w i)) = channel_faults w"
  "market (snd (triggerAlert w i)) = market w"
  "outbox (snd (triggerAlert w i)) = outbox w"
  by (simp_all add: triggerAlert_def dbDone_def logTo_def split: option.splits)



lemma sendMessage_frame:
  "db_faults (snd (sendMessage w c m)) = db_faults w"
  "channel_faults (snd (sendMessage w c m)) = channel_faults w"
  "market (snd (sendMessage w c m)) = market w"
  "price_alerts (snd (sendMessage w c m)) = price_alerts w"
  "set (outbox w) \<subseteq> set (outbox (snd (sendMessage w c m)))"
  "clock (snd (sendMessage w c m)) = clock w"
  by (auto simp: sendMessage_def split: option.splits)


lemma notifyAlert_frame:
  "db_faults (notifyAlert fmt w b p) = db_faults w"
  "channel_faults (notifyAlert fmt w b p) = channel_faults w"
  "market (notifyAlert fmt w b p) = market w"
  "set (outbox w) \<subseteq> set (outbox (notifyAlert fmt w b p))"
proof -
  let ?m = "fmt b p (clock w)"
  obtain r1 w1 where s: "sendMessage w (alert_chat_id b) ?m = (r1, w1)"
    by (cases "sendMessage w (alert_chat_id b) ?m")
  obtain r2 w2 where t: "triggerAlert w1 (alert_id b) = (r2, w2)"
    by (cases "triggerAlert w1 (alert_id b)")
  note sf = sendMessage_frame[of w "alert_chat_id b" ?m, unfolded s snd_conv]
  note tf = triggerAlert_frame[of w1 "alert_id b", unfolded t snd_conv]
  show "db_faults (notifyAlert fmt w b p) = db_faults w"
    using sf tf by (cases r1; cases r2) (simp_all add: notifyAlert_def s t logTo_def)
  show "channel_faults (notifyAlert fmt w b p) = channel_faults w"
    using sf tf by (cases r1; cases r2) (simp_all add: notifyAlert_def s t logTo_def)
  show "market (notifyAlert fmt w b p) = market w"
    using sf tf by (cases r1; cases r2) (simp_all add: notifyAlert_def s t logTo_def)
  show "set (outbox w) \<subseteq> set (outbox (notifyAlert fmt w b p))"
    using sf tf by (cases r1; cases r2) (simp_all add: notifyAlert_def s t logTo_def)
qed










lemma checkAlerts_frame:
  "db_faults (checkAlerts fmt w p bs) = db_faults w"
  "channel_faults (checkAlerts fmt w p bs) = channel_faults w"
  "market (checkAlerts fmt w p bs) = market w"
  by (induction bs arbitrary: w) (simp_all add: notifyAlert_frame)



lemma checkSymbol_frame:
  "db_faults (checkSymbol fmt w g) = db_faults w"
  "channel_faults (checkSymbol fmt w g) = channel_faults w"
  "market (checkSymbol fmt w g) = market w"
  by (simp_all add: checkSymbol_def checkAlerts_frame logTo_def sleep_def
      split: sum.splits option.splits)




lemma checkGroups_frame:
  "db_faults (checkGroups fmt w gs) = db_faults w"
  "channel_faults (checkGroups fmt w gs) = channel_faults w"
  "market (checkGroups fmt w gs) = market w"
  by (induction gs arbitrary: w) (simp_all add: checkSymbol_frame)
























end
